theory Spec2Isabelle
  imports Main "HOL-Library.Char_ord" "HOL-Library.List_Lexorder" "HOL-Library.Product_Lexorder"
begin

section \<open>Python values used by env\_helpers.py\<close>

text \<open>
  A Python \<open>dict\<close> is kept as the list of its items in insertion order. The keys of a
  dictionary are unique; \<open>is_dict\<close> states this. \<open>os.environ\<close> is such a mapping from
  names to strings; an override mapping has values of type \<open>Optional[str]\<close>, with
  \<open>None\<close> of HOL for \<open>None\<close> of Python. A character is a code point below 256.
\<close>

type_synonym ('k, 'v) pydict = "('k \<times> 'v) list"

definition is_dict :: "('k, 'v) pydict \<Rightarrow> bool" where
  "is_dict d = distinct (map fst d)"

definition dict_keys :: "('k, 'v) pydict \<Rightarrow> 'k set" where
  "dict_keys d = fst ` set d"

text \<open>\<open>d.get(k)\<close>: the value, or \<open>None\<close> when the key is absent.\<close>

definition dict_get :: "('k, 'v) pydict \<Rightarrow> 'k \<Rightarrow> 'v option" where
  "dict_get d k = map_of d k"

text \<open>\<open>k in d\<close>\<close>

definition dict_contains :: "('k, 'v) pydict \<Rightarrow> 'k \<Rightarrow> bool" where
  "dict_contains d k = (k \<in> dict_keys d)"

text \<open>\<open>d[k] = v\<close>: an existing key keeps its position, a new key goes to the end.\<close>

fun dict_setitem :: "('k, 'v) pydict \<Rightarrow> 'k \<Rightarrow> 'v \<Rightarrow> ('k, 'v) pydict" where
  "dict_setitem [] k v = [(k, v)]"
| "dict_setitem ((k', v') # d) k v =
     (if k' = k then (k, v) # d else (k', v') # dict_setitem d k v)"

text \<open>\<open>del d[k]\<close>, which the source only runs under the guard \<open>k in d\<close>.\<close>

definition dict_delitem :: "('k, 'v) pydict \<Rightarrow> 'k \<Rightarrow> ('k, 'v) pydict" where
  "dict_delitem d k = filter (\<lambda>kv. fst kv \<noteq> k) d"

text \<open>\<open>d.update(other)\<close>: the items of \<open>other\<close> are stored one after the other.\<close>

fun dict_update :: "('k, 'v) pydict \<Rightarrow> ('k, 'v) pydict \<Rightarrow> ('k, 'v) pydict" where
  "dict_update d [] = d"
| "dict_update d ((k, v) # other) = dict_update (dict_setitem d k v) other"

section \<open>Exceptions and the environment store\<close>

text \<open>
  The exceptions the modelled code can raise. \<open>NoSuchObject\<close> is not an exception of
  Python: it stands for an address that designates no object of the store below, which
  a Python program cannot hold; the branch keeps the model total.
\<close>

datatype py_error =
  AttributeError | KeyError | OSError | UnicodeEncodeError | ValueError | NoSuchObject

text \<open>
  A call leaves a state behind whether it returns or raises. Its outcome is a pair:
  \<open>(None, x)\<close> when the call returned and left \<open>x\<close>, \<open>(Some e, x)\<close> when it raised
  \<open>e\<close> and left \<open>x\<close>.
\<close>

type_synonym 'a outcome = "py_error option \<times> 'a"

text \<open>
  \<open>os.environ\<close> stores through \<open>putenv\<close> and deletes through \<open>unsetenv\<close>. A name is
  accepted when it is not empty and holds neither \<open>=\<close> nor a zero byte, a value when it
  holds no zero byte.
\<close>

definition valid_name :: "string \<Rightarrow> bool" where
  "valid_name k = (k \<noteq> [] \<and> CHR ''='' \<notin> set k \<and> CHR 0x00 \<notin> set k)"

definition valid_value :: "string \<Rightarrow> bool" where
  "valid_value v = (CHR 0x00 \<notin> set v)"

text \<open>
  \<open>os.environ[k] = v\<close>: \<open>putenv\<close> raises \<open>ValueError\<close> for a name or a value it does
  not accept, before the mapping is changed.
\<close>

definition environ_setitem ::
  "(string, string) pydict \<Rightarrow> string \<Rightarrow> string \<Rightarrow> py_error + (string, string) pydict" where
  "environ_setitem env k v =
     (if valid_name k \<and> valid_value v then Inr (dict_setitem env k v) else Inl ValueError)"

text \<open>
  \<open>del os.environ[k]\<close>: \<open>unsetenv\<close> raises \<open>ValueError\<close> for a name with a zero byte
  and \<open>OSError\<close> for an empty name or one with \<open>=\<close>; then the key is removed, with
  \<open>KeyError\<close> when it is absent. The mapping is unchanged when an exception is raised.
\<close>

definition environ_delitem ::
  "(string, string) pydict \<Rightarrow> string \<Rightarrow> py_error + (string, string) pydict" where
  "environ_delitem env k =
     (if CHR 0x00 \<in> set k then Inl ValueError
      else if k = [] \<or> CHR ''='' \<in> set k then Inl OSError
      else if \<not> dict_contains env k then Inl KeyError
      else Inr (dict_delitem env k))"

text \<open>
  An environment whose names and values are all accepted, and an override dictionary
  whose names and values are all accepted (the value \<open>None\<close>, which asks for the
  variable to be unset, is).
\<close>

definition valid_environ :: "(string, string) pydict \<Rightarrow> bool" where
  "valid_environ env = list_all (\<lambda>(k, v). valid_name k \<and> valid_value v) env"

definition valid_overrides :: "(string, string option) pydict \<Rightarrow> bool" where
  "valid_overrides ovr =
     list_all (\<lambda>(k, v). valid_name k \<and> (case v of None \<Rightarrow> True | Some x \<Rightarrow> valid_value x)) ovr"

section \<open>dict\_set\_or\_del\<close>

text \<open>
  \<^verbatim>\<open>
  def dict_set_or_del(d, k, v):
      if v is None:
          if k in d:
              del d[k]
      else:
          d[k] = v
  \<close>
  Every call in env\_helpers.py passes \<open>os.environ\<close> for \<open>d\<close>, so the assignment and
  the deletion are those of the environment store. The result is the exception they
  raise, or the changed environment.
\<close>

definition dict_set_or_del ::
  "(string, string) pydict \<Rightarrow> string \<Rightarrow> string option \<Rightarrow> py_error + (string, string) pydict" where
  "dict_set_or_del d k v =
     (case v of
        None \<Rightarrow> (if dict_contains d k then environ_delitem d k else Inr d)
      | Some x \<Rightarrow> environ_setitem d k x)"

section \<open>join\_dir\_list\<close>

text \<open>
  \<open>str.strip()\<close> without argument removes leading and trailing whitespace. Among
  the code points below 256 the whitespace of Python is the space, the control
  characters 9 to 13 and 28 to 31, the next-line character 133 and the no-break
  space 160.
\<close>

definition is_space :: "char \<Rightarrow> bool" where
  "is_space c =
     (let n = (of_char c :: nat)
      in n = 32 \<or> (9 \<le> n \<and> n \<le> 13) \<or> (28 \<le> n \<and> n \<le> 31) \<or> n = 133 \<or> n = 160)"

definition py_strip :: "string \<Rightarrow> string" where
  "py_strip s = rev (dropWhile is_space (rev (dropWhile is_space s)))"

text \<open>\<open>sep.join(xs)\<close>\<close>

fun py_join :: "string \<Rightarrow> string list \<Rightarrow> string" where
  "py_join sep [] = []"
| "py_join sep [x] = x"
| "py_join sep (x # y # ys) = x @ sep @ py_join sep (y # ys)"

text \<open>
  \<^verbatim>\<open>
  def join_dir_list(dirs):
      d = [d.strip() for d in dirs]
      return ':'.join([d for d in dirs if d])
  \<close>
  The first statement binds the local name \<open>d\<close> to the list of stripped elements. The
  second statement iterates over \<open>dirs\<close>; inside the comprehension \<open>d\<close> is the loop
  variable, an element of \<open>dirs\<close>. A string is truthy when it is not empty.
\<close>

definition join_dir_list :: "string list \<Rightarrow> string" where
  "join_dir_list dirs =
     (let d = map py_strip dirs
      in py_join '':'' (filter (\<lambda>d. d \<noteq> []) dirs))"

section \<open>Objects and the process state\<close>

text \<open>
  Python passes dictionaries by reference. The override mapping a caller hands to
  \<open>EnvVarContext\<close> is an object the caller can change later, so the dictionaries
  reachable by reference live in a store: the object at address \<open>a\<close> is the \<open>a\<close>-th
  element, and a new object is appended. The process state is \<open>os.environ\<close> together
  with this store.
\<close>

type_synonym override_dict = "(string, string option) pydict"

record pystate =
  os_environ :: "(string, string) pydict"
  heap :: "override_dict list"

definition heap_get :: "override_dict list \<Rightarrow> nat \<Rightarrow> override_dict option" where
  "heap_get h a = (if a < length h then Some (h ! a) else None)"

definition heap_alloc :: "override_dict list \<Rightarrow> override_dict \<Rightarrow> override_dict list \<times> nat" where
  "heap_alloc h d = (h @ [d], length h)"

definition heap_set :: "override_dict list \<Rightarrow> nat \<Rightarrow> override_dict \<Rightarrow> override_dict list" where
  "heap_set h a d = h[a := d]"

section \<open>EnvVarContext\<close>

text \<open>
  \<^verbatim>\<open>
  class EnvVarContext:
      env_vars: Mapping[str, Optional[str]]
      saved_env_vars: Dict[str, Optional[str]]
  \<close>
  \<open>env_vars\<close> is a reference to a dictionary of the store. \<open>saved_env_vars\<close> is not
  set by the constructor (\<open>None\<close> of HOL: the attribute does not exist yet);
  \<open>__enter__\<close> binds it to a dictionary it creates with \<open>{}\<close>, which no other name
  refers to, so that dictionary is kept by value.
\<close>

record EnvVarContext =
  env_vars :: nat
  saved_env_vars :: "override_dict option"

text \<open>
  The keyword arguments of a call \<open>EnvVarContext(mapping, **kwargs)\<close> arrive in
  \<open>kwargs_env_vars\<close> as a dictionary made for the call. The names \<open>self\<close> and
  \<open>env_vars\<close> are parameters of \<open>__init__\<close>: a call that passes one of them as a
  keyword raises \<open>TypeError\<close> before the body runs, so they are never keys of
  \<open>kwargs_env_vars\<close>.
\<close>

definition is_kwargs :: "override_dict \<Rightarrow> bool" where
  "is_kwargs kw = (is_dict kw \<and> ''self'' \<notin> dict_keys kw \<and> ''env_vars'' \<notin> dict_keys kw)"

text \<open>
  \<^verbatim>\<open>
  def __init__(self, env_vars = {}, **kwargs_env_vars):
      self.env_vars = dict(copy.deepcopy(env_vars))
      self.env_vars.update(kwargs_env_vars)
  \<close>
  \<open>copy.deepcopy\<close> creates a new dictionary with the items of its argument (keys and
  values are immutable strings or \<open>None\<close>), \<open>dict(...)\<close> creates another one with the
  same items, and \<open>update\<close> changes that last object in place. The two reads
  \<open>h1 ! copied\<close> and \<open>h2 ! self_env_vars\<close> are of the objects just allocated.
\<close>

definition EnvVarContext_init ::
  "pystate \<Rightarrow> nat \<Rightarrow> override_dict \<Rightarrow> py_error + (pystate \<times> EnvVarContext)" where
  "EnvVarContext_init s env_vars_arg kwargs_env_vars =
     (case heap_get (heap s) env_vars_arg of
        None \<Rightarrow> Inl NoSuchObject
      | Some m \<Rightarrow>
          (let (h1, copied) = heap_alloc (heap s) m;
               (h2, self_env_vars) = heap_alloc h1 (h1 ! copied);
               h3 = heap_set h2 self_env_vars (dict_update (h2 ! self_env_vars) kwargs_env_vars)
           in Inr (s\<lparr>heap := h3\<rparr>, \<lparr>env_vars = self_env_vars, saved_env_vars = None\<rparr>)))"

text \<open>
  \<^verbatim>\<open>
  def __enter__(self):
      self.saved_env_vars = {}
      for env_var_name, new_value in self.env_vars.items():
          self.saved_env_vars[env_var_name] = os.environ.get(env_var_name)
          dict_set_or_del(os.environ, env_var_name, new_value)
  \<close>
  The loop runs over the items of \<open>self.env_vars\<close> and carries the two objects it
  changes: the saved dictionary and \<open>os.environ\<close>. When \<open>dict_set_or_del\<close> raises,
  the loop stops: the name is already saved, the overrides before it are applied and
  those after it are not.
\<close>

fun enter_loop ::
  "override_dict \<Rightarrow> override_dict \<times> (string, string) pydict
     \<Rightarrow> (override_dict \<times> (string, string) pydict) outcome" where
  "enter_loop [] (saved, env) = (None, saved, env)"
| "enter_loop ((env_var_name, new_value) # rest) (saved, env) =
     (let saved' = dict_setitem saved env_var_name (dict_get env env_var_name)
      in case dict_set_or_del env env_var_name new_value of
           Inl e \<Rightarrow> (Some e, saved', env)
         | Inr env' \<Rightarrow> enter_loop rest (saved', env'))"

definition EnvVarContext_enter ::
  "pystate \<Rightarrow> EnvVarContext \<Rightarrow> (pystate \<times> EnvVarContext) outcome" where
  "EnvVarContext_enter s self =
     (case heap_get (heap s) (env_vars self) of
        None \<Rightarrow> (Some NoSuchObject, s, self\<lparr>saved_env_vars := Some []\<rparr>)
      | Some items \<Rightarrow>
          (let (e, saved, env) = enter_loop items ([], os_environ s)
           in (e, s\<lparr>os_environ := env\<rparr>, self\<lparr>saved_env_vars := Some saved\<rparr>)))"

text \<open>
  \<^verbatim>\<open>
  def __exit__(self, exc_type, exc_val, exc_tb):
      for env_var_name, saved_value in self.saved_env_vars.items():
          dict_set_or_del(os.environ, env_var_name, saved_value)
  \<close>
  The three exception arguments are not read. The method returns \<open>None\<close>, so an
  exception of the block propagates after the restoration.
\<close>

fun exit_loop :: "override_dict \<Rightarrow> (string, string) pydict \<Rightarrow> (string, string) pydict outcome" where
  "exit_loop [] env = (None, env)"
| "exit_loop ((env_var_name, saved_value) # rest) env =
     (case dict_set_or_del env env_var_name saved_value of
        Inl e \<Rightarrow> (Some e, env)
      | Inr env' \<Rightarrow> exit_loop rest env')"

definition EnvVarContext_exit :: "pystate \<Rightarrow> EnvVarContext \<Rightarrow> pystate outcome" where
  "EnvVarContext_exit s self =
     (case saved_env_vars self of
        None \<Rightarrow> (Some AttributeError, s)
      | Some saved \<Rightarrow>
          (let (e, env) = exit_loop saved (os_environ s)
           in (e, s\<lparr>os_environ := env\<rparr>)))"

text \<open>The value of a variable in the environment of a state, \<open>None\<close> when it is unset.\<close>

definition getenv :: "pystate \<Rightarrow> string \<Rightarrow> string option" where
  "getenv s name = dict_get (os_environ s) name"

section \<open>write\_env\_vars\<close>

text \<open>
  Modelled from the spec: \<open>split_into_word_set\<close> (module \<open>string_util\<close>) is not
  among the sources; the spec calls its result "a fixed allow-list of environment
  variable names", so \<open>ENV_VARS_TO_SAVE\<close> is the set of the words of the string
  literal in env\_helpers.py.
\<close>

definition ENV_VARS_TO_SAVE :: "string set" where
  "ENV_VARS_TO_SAVE =
     {''ASAN_OPTIONS'', ''CC'', ''CFLAGS'', ''CPPFLAGS'', ''CXX'', ''CXXFLAGS'', ''LANG'',
      ''LDFLAGS'', ''PATH'', ''PYTHONPATH'', ''NM'', ''AR'', ''LD'', ''AS''}"

text \<open>\<open>s.startswith(prefix)\<close>\<close>

definition startswith :: "string \<Rightarrow> string \<Rightarrow> bool" where
  "startswith s prefix = (take (length prefix) s = prefix)"

text \<open>
  \<open>shlex.quote\<close> of the standard library: the empty string becomes two quotes; a string
  of letters, digits and the characters \<open>_@%+=:,./-\<close> is returned as it is; any other
  string is put between single quotes, each single quote of it replaced by the five
  characters quote, double quote, quote, double quote, quote.
\<close>

definition is_safe_char :: "char \<Rightarrow> bool" where
  "is_safe_char c =
     (let n = (of_char c :: nat)
      in (48 \<le> n \<and> n \<le> 57) \<or> (65 \<le> n \<and> n \<le> 90) \<or> (97 \<le> n \<and> n \<le> 122)
         \<or> c \<in> set ''_@%+=:,./-'')"

definition shlex_quote :: "string \<Rightarrow> string" where
  "shlex_quote s =
     (if s = [] then [CHR 0x27, CHR 0x27]
      else if list_all is_safe_char s then s
      else [CHR 0x27]
           @ concat (map (\<lambda>c. if c = CHR 0x27
                                then [CHR 0x27, CHR 0x22, CHR 0x27, CHR 0x22, CHR 0x27]
                                else [c]) s)
           @ [CHR 0x27])"

text \<open>\<open>'export %s=%s\n' % (k, shlex.quote(v))\<close>\<close>

definition export_line :: "string \<Rightarrow> string \<Rightarrow> string" where
  "export_line k v = ''export '' @ k @ ''='' @ shlex_quote v @ [CHR 0x0A]"

text \<open>
  \<^verbatim>\<open>
  def write_env_vars(file_path):
      env_script = ''
      for k, v in sorted(dict(os.environ).items()):
          if (k in ENV_VARS_TO_SAVE or
                  k in DEVTOOLSET_ENV_VARS or
                  k.startswith('YB_')):
              env_script += 'export %s=%s\n' % (k, shlex.quote(v))
      with open(file_path, 'w') as output_file:
          output_file.write(env_script)
  \<close>
  \<open>DEVTOOLSET_ENV_VARS\<close> is imported from a module that is not among the sources, so
  it is a parameter. \<open>sorted\<close> orders the items as pairs, by code point.
\<close>

fun write_env_vars_loop :: "string set \<Rightarrow> (string \<times> string) list \<Rightarrow> string \<Rightarrow> string" where
  "write_env_vars_loop DEVTOOLSET_ENV_VARS [] env_script = env_script"
| "write_env_vars_loop DEVTOOLSET_ENV_VARS ((k, v) # rest) env_script =
     write_env_vars_loop DEVTOOLSET_ENV_VARS rest
       (if k \<in> ENV_VARS_TO_SAVE \<or> k \<in> DEVTOOLSET_ENV_VARS \<or> startswith k ''YB_''
        then env_script @ export_line k v
        else env_script)"

text \<open>
  The files are a map from paths to contents. Two facts of the platform are parameters:
  \<open>openable path\<close> says that \<open>open(path, 'w')\<close> succeeds (the path is not empty, its
  directory exists and can be written), and \<open>encodable text\<close> says that the text can be
  encoded in the encoding of the file. \<open>open\<close> raises \<open>OSError\<close> (of which
  \<open>FileNotFoundError\<close> and \<open>PermissionError\<close> are subclasses) and leaves the files as
  they are. Once the file is open its content is empty; \<open>write\<close> encodes the whole text
  before it stores any of it, so a text that cannot be encoded raises
  \<open>UnicodeEncodeError\<close> and leaves the file empty.
\<close>

definition write_env_vars ::
  "string set \<Rightarrow> (string \<Rightarrow> bool) \<Rightarrow> (string \<Rightarrow> bool) \<Rightarrow> pystate
     \<Rightarrow> (string \<rightharpoonup> string) \<Rightarrow> string \<Rightarrow> (string \<rightharpoonup> string) outcome" where
  "write_env_vars DEVTOOLSET_ENV_VARS openable encodable s files file_path =
     (let env_script = write_env_vars_loop DEVTOOLSET_ENV_VARS (sort (os_environ s)) []
      in if \<not> openable file_path then (Some OSError, files)
         else if \<not> encodable env_script then (Some UnicodeEncodeError, files(file_path \<mapsto> []))
         else (None, files(file_path \<mapsto> env_script)))"

text \<open>The names the condition of \<open>write_env_vars\<close> lets through.\<close>

definition is_saved_name :: "string set \<Rightarrow> string \<Rightarrow> bool" where
  "is_saved_name DEVTOOLSET_ENV_VARS k =
     (k \<in> ENV_VARS_TO_SAVE \<or> k \<in> DEVTOOLSET_ENV_VARS \<or> startswith k ''YB_'')"

section \<open>Properties of join\_dir\_list\<close>

lemma py_strip_blank: "py_strip '' '' = []"
  by (simp add: py_strip_def is_space_def)

text \<open>
  C9. For every list of strings \<open>dirs\<close>, \<open>join_dir_list dirs\<close> is the colon-join of the
  non-empty elements of the original list: no element is trimmed (the list of stripped
  elements is computed and discarded), and an element made of whitespace only, such as
  \<open>" "\<close>, is kept in the result with its whitespace, although stripping it would give
  the empty string.
\<close>

theorem join_dir_list_unstripped:
  "join_dir_list dirs = py_join '':'' (filter (\<lambda>x. x \<noteq> []) dirs)
   \<and> join_dir_list ['' '', '''', '' /usr/bin '', ''/bin''] = '' : /usr/bin :/bin''
   \<and> py_strip '' '' = [] \<and> join_dir_list ['' ''] = '' ''"
  by (simp add: join_dir_list_def py_strip_blank)

section \<open>Dictionary operations\<close>

lemma map_of_dict_setitem: "map_of (dict_setitem d k v) = (map_of d)(k \<mapsto> v)"
  by (induction d) (auto simp: fun_eq_iff)

lemma dict_keys_dom: "dict_keys d = dom (map_of d)"
  by (simp add: dict_keys_def dom_map_of_conv_image_fst)

lemma dict_keys_setitem: "dict_keys (dict_setitem d k v) = insert k (dict_keys d)"
  by (simp add: dict_keys_dom map_of_dict_setitem)

lemma is_dict_setitem: "is_dict d \<Longrightarrow> is_dict (dict_setitem d k v)"
  using dict_keys_setitem[of _ k v]
  by (induction d) (auto simp: is_dict_def dict_keys_def)

lemma map_of_dict_delitem: "map_of (dict_delitem d k) = (map_of d)(k := None)"
  by (induction d) (auto simp: dict_delitem_def fun_eq_iff)

lemma dict_get_absent: "\<not> dict_contains d k \<Longrightarrow> dict_get d k = None"
  by (simp add: dict_contains_def dict_keys_def dict_get_def map_of_eq_None_iff)

lemma is_dict_lookup: "is_dict d \<Longrightarrow> (k, v) \<in> set d \<Longrightarrow> map_of d k = Some v"
  by (simp add: is_dict_def)

lemma in_keys_lookup: "k \<in> dict_keys d \<Longrightarrow> \<exists>v. map_of d k = Some v"
  by (auto simp: dict_keys_dom)

subsection \<open>The environment store\<close>

lemma valid_environ_iff:
  "valid_environ env \<longleftrightarrow> (\<forall>k v. (k, v) \<in> set env \<longrightarrow> valid_name k \<and> valid_value v)"
  by (auto simp: valid_environ_def list_all_iff)

lemma valid_overrides_iff:
  "valid_overrides ovr \<longleftrightarrow>
     (\<forall>k v. (k, v) \<in> set ovr \<longrightarrow> valid_name k \<and> (\<forall>x. v = Some x \<longrightarrow> valid_value x))"
  by (auto simp: valid_overrides_def list_all_iff split: option.splits)

lemma set_dict_setitem: "set (dict_setitem d k v) \<subseteq> insert (k, v) (set d)"
  by (induction d) (auto split: if_splits)

lemma valid_environ_setitem:
  "valid_environ env \<Longrightarrow> valid_name k \<Longrightarrow> valid_value v \<Longrightarrow> valid_environ (dict_setitem env k v)"
  using set_dict_setitem[of env k v] unfolding valid_environ_iff by blast

lemma valid_environ_delitem: "valid_environ env \<Longrightarrow> valid_environ (dict_delitem env k)"
  by (auto simp: valid_environ_iff dict_delitem_def)

lemma valid_environ_key: "valid_environ env \<Longrightarrow> dict_contains env k \<Longrightarrow> valid_name k"
  by (auto simp: valid_environ_iff dict_contains_def dict_keys_def)

lemma valid_environ_get:
  "valid_environ env \<Longrightarrow> dict_get env k = Some x \<Longrightarrow> valid_name k \<and> valid_value x"
  by (auto simp: valid_environ_iff dict_get_def dest: map_of_SomeD)

lemma dict_set_or_del_get:
  "dict_set_or_del d k v = Inr d' \<Longrightarrow> dict_get d' = (dict_get d)(k := v)"
  using dict_get_absent[of d k]
  by (auto simp: dict_set_or_del_def environ_setitem_def environ_delitem_def dict_get_def
      map_of_dict_setitem map_of_dict_delitem fun_eq_iff split: option.splits if_splits)

lemma dict_set_or_del_raises:
  "dict_set_or_del d k v = Inl e \<Longrightarrow> \<not> (valid_environ d \<and> (\<forall>x. v = Some x \<longrightarrow> valid_name k \<and> valid_value x))"
  by (auto simp: dict_set_or_del_def environ_setitem_def environ_delitem_def valid_name_def
      dest: valid_environ_key split: option.splits if_splits)

lemma dict_set_or_del_valid:
  "dict_set_or_del d k v = Inr d' \<Longrightarrow> valid_environ d \<Longrightarrow> valid_environ d'"
  by (auto simp: dict_set_or_del_def environ_setitem_def environ_delitem_def
      valid_environ_setitem valid_environ_delitem split: option.splits if_splits)

subsection \<open>The loop of \<open>__exit__\<close>\<close>

lemma exit_loop_frame:
  "exit_loop saved env = (e, env') \<Longrightarrow> name \<notin> dict_keys saved \<Longrightarrow>
   dict_get env' name = dict_get env name"
proof (induction saved arbitrary: env)
  case Nil
  then show ?case by simp
next
  case (Cons p saved)
  obtain k w where p: "p = (k, w)" by (cases p)
  from Cons.prems(2) p have ne: "name \<noteq> k" and rest: "name \<notin> dict_keys saved"
    by (auto simp: dict_keys_def)
  show ?case
  proof (cases "dict_set_or_del env k w")
    case (Inl err)
    with Cons.prems(1) p show ?thesis by simp
  next
    case (Inr env1)
    with Cons.prems(1) p have "exit_loop saved env1 = (e, env')" by simp
    then have "dict_get env' name = dict_get env1 name" using rest by (rule Cons.IH)
    then show ?thesis using ne dict_set_or_del_get[OF Inr] by simp
  qed
qed

lemma exit_loop_valid:
  "exit_loop saved env = (e, env') \<Longrightarrow> valid_environ env \<Longrightarrow> valid_environ env'"
proof (induction saved arbitrary: env)
  case Nil
  then show ?case by simp
next
  case (Cons p saved)
  obtain k w where p: "p = (k, w)" by (cases p)
  show ?case
  proof (cases "dict_set_or_del env k w")
    case (Inl err)
    with Cons.prems p show ?thesis by simp
  next
    case (Inr env1)
    with Cons.prems(1) p have "exit_loop saved env1 = (e, env')" by simp
    moreover have "valid_environ env1" using Inr Cons.prems(2) by (rule dict_set_or_del_valid)
    ultimately show ?thesis by (rule Cons.IH)
  qed
qed

lemma exit_loop_returns:
  "exit_loop saved env = (e, env') \<Longrightarrow> valid_environ env \<Longrightarrow>
   (\<forall>k x. (k, Some x) \<in> set saved \<longrightarrow> valid_name k \<and> valid_value x) \<Longrightarrow> e = None"
proof (induction saved arbitrary: env)
  case Nil
  then show ?case by simp
next
  case (Cons p saved)
  obtain k w where p: "p = (k, w)" by (cases p)
  show ?case
  proof (cases "dict_set_or_del env k w")
    case (Inl err)
    from dict_set_or_del_raises[OF Inl] Cons.prems(2,3) p show ?thesis by auto
  next
    case (Inr env1)
    with Cons.prems(1) p have "exit_loop saved env1 = (e, env')" by simp
    moreover have "valid_environ env1" using Inr Cons.prems(2) by (rule dict_set_or_del_valid)
    moreover have "\<forall>k x. (k, Some x) \<in> set saved \<longrightarrow> valid_name k \<and> valid_value x"
      using Cons.prems(3) by auto
    ultimately show ?thesis by (rule Cons.IH)
  qed
qed

lemma exit_loop_restores:
  "exit_loop saved env = (None, env') \<Longrightarrow> is_dict saved \<Longrightarrow> map_of saved name = Some v \<Longrightarrow>
   dict_get env' name = v"
proof (induction saved arbitrary: env)
  case Nil
  then show ?case by simp
next
  case (Cons p saved)
  obtain k w where p: "p = (k, w)" by (cases p)
  show ?case
  proof (cases "dict_set_or_del env k w")
    case (Inl err)
    with Cons.prems(1) p show ?thesis by simp
  next
    case (Inr env1)
    with Cons.prems(1) p have rest: "exit_loop saved env1 = (None, env')" by simp
    show ?thesis
    proof (cases "k = name")
      case True
      with Cons.prems(2,3) p have "name \<notin> dict_keys saved" "w = v"
        by (auto simp: is_dict_def dict_keys_def)
      then show ?thesis
        using True exit_loop_frame[OF rest] dict_set_or_del_get[OF Inr] by simp
    next
      case False
      with Cons.prems(2,3) p have "is_dict saved" "map_of saved name = Some v"
        by (auto simp: is_dict_def)
      with rest show ?thesis by (rule Cons.IH)
    qed
  qed
qed

subsection \<open>The loop of \<open>__enter__\<close>\<close>

lemma enter_loop_saved_mono:
  "enter_loop items (saved, env) = (e, saved', env') \<Longrightarrow> dict_keys saved \<subseteq> dict_keys saved'"
proof (induction items arbitrary: saved env)
  case Nil
  then show ?case by simp
next
  case (Cons p items)
  obtain k w where p: "p = (k, w)" by (cases p)
  show ?case
  proof (cases "dict_set_or_del env k w")
    case (Inl err)
    with Cons.prems p show ?thesis by (auto simp: dict_keys_setitem)
  next
    case (Inr env1)
    with Cons.prems p
    have "enter_loop items (dict_setitem saved k (dict_get env k), env1) = (e, saved', env')"
      by simp
    from Cons.IH[OF this] show ?thesis by (auto simp: dict_keys_setitem)
  qed
qed

lemma enter_loop_saved_keys:
  "enter_loop items (saved, env) = (e, saved', env') \<Longrightarrow>
   dict_keys saved' \<subseteq> dict_keys saved \<union> dict_keys items"
proof (induction items arbitrary: saved env)
  case Nil
  then show ?case by simp
next
  case (Cons p items)
  obtain k w where p: "p = (k, w)" by (cases p)
  have keys: "dict_keys (p # items) = insert k (dict_keys items)"
    using p by (simp add: dict_keys_def)
  show ?case
  proof (cases "dict_set_or_del env k w")
    case (Inl err)
    with Cons.prems p show ?thesis unfolding keys by (auto simp: dict_keys_setitem)
  next
    case (Inr env1)
    with Cons.prems p
    have "enter_loop items (dict_setitem saved k (dict_get env k), env1) = (e, saved', env')"
      by simp
    from Cons.IH[OF this] show ?thesis unfolding keys by (auto simp: dict_keys_setitem)
  qed
qed

lemma enter_loop_env_frame:
  "enter_loop items (saved, env) = (e, saved', env') \<Longrightarrow> name \<notin> dict_keys saved' \<Longrightarrow>
   dict_get env' name = dict_get env name"
proof (induction items arbitrary: saved env)
  case Nil
  then show ?case by simp
next
  case (Cons p items)
  obtain k w where p: "p = (k, w)" by (cases p)
  show ?case
  proof (cases "dict_set_or_del env k w")
    case (Inl err)
    with Cons.prems p show ?thesis by simp
  next
    case (Inr env1)
    with Cons.prems p
    have rest: "enter_loop items (dict_setitem saved k (dict_get env k), env1) = (e, saved', env')"
      by simp
    from enter_loop_saved_mono[OF rest] Cons.prems(2) have ne: "name \<noteq> k"
      by (auto simp: dict_keys_setitem)
    from Cons.IH[OF rest Cons.prems(2)] have "dict_get env' name = dict_get env1 name" .
    then show ?thesis using ne dict_set_or_del_get[OF Inr] by simp
  qed
qed

lemma enter_loop_saved_is_dict:
  "enter_loop items (saved, env) = (e, saved', env') \<Longrightarrow> is_dict saved \<Longrightarrow> is_dict saved'"
proof (induction items arbitrary: saved env)
  case Nil
  then show ?case by simp
next
  case (Cons p items)
  obtain k w where p: "p = (k, w)" by (cases p)
  have d: "is_dict (dict_setitem saved k (dict_get env k))"
    using Cons.prems(2) by (rule is_dict_setitem)
  show ?case
  proof (cases "dict_set_or_del env k w")
    case (Inl err)
    with Cons.prems p d show ?thesis by auto
  next
    case (Inr env1)
    with Cons.prems p
    have "enter_loop items (dict_setitem saved k (dict_get env k), env1) = (e, saved', env')"
      by simp
    then show ?thesis using d by (rule Cons.IH)
  qed
qed

text \<open>Every entry the loop adds to the saved dictionary holds the value the name had at the start.\<close>

lemma enter_loop_saved_values:
  "enter_loop items (saved, env) = (e, saved', env') \<Longrightarrow> is_dict items \<Longrightarrow>
   dict_keys items \<inter> dict_keys saved = {} \<Longrightarrow> map_of saved' name = Some v \<Longrightarrow>
   map_of saved name = Some v \<or> (name \<in> dict_keys items \<and> v = dict_get env name)"
proof (induction items arbitrary: saved env)
  case Nil
  then show ?case by simp
next
  case (Cons p items)
  obtain k w where p: "p = (k, w)" by (cases p)
  let ?saved1 = "dict_setitem saved k (dict_get env k)"
  have keys: "dict_keys (p # items) = insert k (dict_keys items)"
    using p by (simp add: dict_keys_def)
  from Cons.prems(2) p have d: "is_dict items" and fresh: "k \<notin> dict_keys items"
    by (auto simp: is_dict_def dict_keys_def)
  from Cons.prems(3) fresh have disj: "dict_keys items \<inter> dict_keys ?saved1 = {}"
    unfolding keys by (auto simp: dict_keys_setitem)
  have first: "map_of ?saved1 name = Some v \<Longrightarrow>
               map_of saved name = Some v \<or> (name \<in> dict_keys (p # items) \<and> v = dict_get env name)"
    unfolding keys by (auto simp: map_of_dict_setitem split: if_splits)
  show ?case
  proof (cases "dict_set_or_del env k w")
    case (Inl err)
    with Cons.prems(1) p have "saved' = ?saved1" by auto
    with Cons.prems(4) first show ?thesis by simp
  next
    case (Inr env1)
    with Cons.prems(1) p have rest: "enter_loop items (?saved1, env1) = (e, saved', env')"
      by simp
    from Cons.IH[OF rest d disj Cons.prems(4)]
    consider "map_of ?saved1 name = Some v" | "name \<in> dict_keys items" "v = dict_get env1 name"
      by blast
    then show ?thesis
    proof cases
      case 1
      then show ?thesis by (rule first)
    next
      case 2
      with fresh have "name \<noteq> k" by auto
      then have "dict_get env1 name = dict_get env name"
        using dict_set_or_del_get[OF Inr] by simp
      with 2 show ?thesis unfolding keys by simp
    qed
  qed
qed

lemma enter_loop_valid:
  "enter_loop items (saved, env) = (e, saved', env') \<Longrightarrow> valid_environ env \<Longrightarrow> valid_environ env'"
proof (induction items arbitrary: saved env)
  case Nil
  then show ?case by simp
next
  case (Cons p items)
  obtain k w where p: "p = (k, w)" by (cases p)
  show ?case
  proof (cases "dict_set_or_del env k w")
    case (Inl err)
    with Cons.prems p show ?thesis by simp
  next
    case (Inr env1)
    with Cons.prems(1) p
    have "enter_loop items (dict_setitem saved k (dict_get env k), env1) = (e, saved', env')"
      by simp
    moreover have "valid_environ env1" using Inr Cons.prems(2) by (rule dict_set_or_del_valid)
    ultimately show ?thesis by (rule Cons.IH)
  qed
qed

lemma enter_loop_returns:
  "enter_loop items (saved, env) = (e, saved', env') \<Longrightarrow> valid_environ env \<Longrightarrow>
   valid_overrides items \<Longrightarrow> e = None"
proof (induction items arbitrary: saved env)
  case Nil
  then show ?case by simp
next
  case (Cons p items)
  obtain k w where p: "p = (k, w)" by (cases p)
  from Cons.prems(3) p have ok: "\<forall>x. w = Some x \<longrightarrow> valid_name k \<and> valid_value x"
    and rest_ok: "valid_overrides items"
    by (auto simp: valid_overrides_def)
  show ?case
  proof (cases "dict_set_or_del env k w")
    case (Inl err)
    from dict_set_or_del_raises[OF Inl] Cons.prems(2) ok show ?thesis by simp
  next
    case (Inr env1)
    with Cons.prems(1) p
    have "enter_loop items (dict_setitem saved k (dict_get env k), env1) = (e, saved', env')"
      by simp
    moreover have "valid_environ env1" using Inr Cons.prems(2) by (rule dict_set_or_del_valid)
    ultimately show ?thesis using rest_ok by (rule Cons.IH)
  qed
qed

text \<open>When the loop returns, every name of the override dictionary is a saved name.\<close>

lemma enter_loop_saves_all:
  "enter_loop items (saved, env) = (None, saved', env') \<Longrightarrow> dict_keys items \<subseteq> dict_keys saved'"
proof (induction items arbitrary: saved env)
  case Nil
  then show ?case by (simp add: dict_keys_def)
next
  case (Cons p items)
  obtain k w where p: "p = (k, w)" by (cases p)
  have keys: "dict_keys (p # items) = insert k (dict_keys items)"
    using p by (simp add: dict_keys_def)
  show ?case
  proof (cases "dict_set_or_del env k w")
    case (Inl err)
    with Cons.prems p show ?thesis by simp
  next
    case (Inr env1)
    with Cons.prems p
    have rest: "enter_loop items (dict_setitem saved k (dict_get env k), env1) = (None, saved', env')"
      by simp
    from Cons.IH[OF rest] enter_loop_saved_mono[OF rest] show ?thesis
      unfolding keys by (auto simp: dict_keys_setitem)
  qed
qed

lemma enter_loop_env_untouched_later:
  "enter_loop items (saved, env) = (e, saved', env') \<Longrightarrow> name \<notin> dict_keys items \<Longrightarrow>
   dict_get env' name = dict_get env name"
proof (induction items arbitrary: saved env)
  case Nil
  then show ?case by simp
next
  case (Cons p items)
  obtain k w where p: "p = (k, w)" by (cases p)
  from Cons.prems(2) p have ne: "name \<noteq> k" and rest_free: "name \<notin> dict_keys items"
    by (auto simp: dict_keys_def)
  show ?case
  proof (cases "dict_set_or_del env k w")
    case (Inl err)
    with Cons.prems p show ?thesis by simp
  next
    case (Inr env1)
    with Cons.prems p
    have rest: "enter_loop items (dict_setitem saved k (dict_get env k), env1) = (e, saved', env')"
      by simp
    from Cons.IH[OF rest rest_free] have "dict_get env' name = dict_get env1 name" .
    then show ?thesis using ne dict_set_or_del_get[OF Inr] by simp
  qed
qed

lemma enter_loop_env_applies:
  "enter_loop items (saved, env) = (None, saved', env') \<Longrightarrow> is_dict items \<Longrightarrow>
   map_of items name = Some v \<Longrightarrow> dict_get env' name = v"
proof (induction items arbitrary: saved env)
  case Nil
  then show ?case by simp
next
  case (Cons p items)
  obtain k w where p: "p = (k, w)" by (cases p)
  show ?case
  proof (cases "dict_set_or_del env k w")
    case (Inl err)
    with Cons.prems(1) p show ?thesis by simp
  next
    case (Inr env1)
    with Cons.prems(1) p
    have rest: "enter_loop items (dict_setitem saved k (dict_get env k), env1) = (None, saved', env')"
      by simp
    show ?thesis
    proof (cases "k = name")
      case True
      with Cons.prems(2,3) p have "name \<notin> dict_keys items" "w = v"
        by (auto simp: is_dict_def dict_keys_def)
      then show ?thesis
        using True enter_loop_env_untouched_later[OF rest] dict_set_or_del_get[OF Inr] by simp
    next
      case False
      with Cons.prems(2,3) p have "is_dict items" "map_of items name = Some v"
        by (auto simp: is_dict_def)
      with rest show ?thesis by (rule Cons.IH)
    qed
  qed
qed

section \<open>Properties of EnvVarContext\<close>

lemma enter_outcome:
  assumes "heap_get (heap s) (env_vars self) = Some ovr"
    and "enter_loop ovr ([], os_environ s) = (e, saved, env)"
  shows "EnvVarContext_enter s self
           = (e, s\<lparr>os_environ := env\<rparr>, self\<lparr>saved_env_vars := Some saved\<rparr>)"
  using assms by (simp add: EnvVarContext_enter_def)

lemma exit_outcome:
  assumes "saved_env_vars self = Some saved" and "exit_loop saved (os_environ s) = (e, env)"
  shows "EnvVarContext_exit s self = (e, s\<lparr>os_environ := env\<rparr>)"
  using assms by (simp add: EnvVarContext_exit_def)

text \<open>
  What \<open>__enter__\<close> saves are values of the environment it started from, so \<open>__exit__\<close>
  can store each of them again.
\<close>

lemma enter_loop_saved_storable:
  assumes "enter_loop ovr ([], env) = (e, saved, env1)" and "is_dict ovr" and "valid_environ env"
  shows "\<forall>k x. (k, Some x) \<in> set saved \<longrightarrow> valid_name k \<and> valid_value x"
proof (intro allI impI)
  fix k x
  assume mem: "(k, Some x) \<in> set saved"
  have "is_dict saved"
    using assms(1) by (rule enter_loop_saved_is_dict) (simp add: is_dict_def)
  then have "map_of saved k = Some (Some x)" using mem by (rule is_dict_lookup)
  with enter_loop_saved_values[OF assms(1,2), of k "Some x"]
  have "dict_get env k = Some x" by (simp add: dict_keys_def)
  with assms(3) show "valid_name k \<and> valid_value x" by (rule valid_environ_get)
qed

lemma enter_then_exit_loop:
  assumes "enter_loop ovr ([], env) = (e, saved, env1)" and "is_dict ovr" and "valid_environ env"
    and "exit_loop saved env1 = (e', env2)"
  shows "e' = None" and "dict_get env2 name = dict_get env name"
proof -
  have d: "is_dict saved"
    using assms(1) by (rule enter_loop_saved_is_dict) (simp add: is_dict_def)
  have v1: "valid_environ env1" using assms(1,3) by (rule enter_loop_valid)
  show none: "e' = None"
    using assms(4) v1 enter_loop_saved_storable[OF assms(1,2,3)] by (rule exit_loop_returns)
  show "dict_get env2 name = dict_get env name"
  proof (cases "name \<in> dict_keys saved")
    case True
    then obtain v where v: "map_of saved name = Some v" using in_keys_lookup by fastforce
    with enter_loop_saved_values[OF assms(1,2), of name v] have "v = dict_get env name"
      by (simp add: dict_keys_def)
    moreover have "dict_get env2 name = v"
      using assms(4) d v unfolding none by (rule exit_loop_restores)
    ultimately show ?thesis by simp
  next
    case False
    have "dict_get env2 name = dict_get env1 name" using assms(4) False by (rule exit_loop_frame)
    also have "\<dots> = dict_get env name" using assms(1) False by (rule enter_loop_env_frame)
    finally show ?thesis .
  qed
qed

text \<open>
  A name the store refuses stops \<open>__enter__\<close> in the middle: the override before it is
  applied, the one after it is not, and \<open>__exit__\<close> run in that state restores.
\<close>

lemma enter_raises_midway_example:
   "\<exists>s1 self1 s2.
         EnvVarContext_enter \<lparr>os_environ = [(''A'', ''x'')],
                               heap = [[(''A'', Some ''y''), (''B=C'', Some ''z''), (''D'', Some ''w'')]]\<rparr>
                             \<lparr>env_vars = 0, saved_env_vars = None\<rparr> = (Some ValueError, s1, self1)
         \<and> getenv s1 ''A'' = Some ''y'' \<and> getenv s1 ''D'' = None
         \<and> EnvVarContext_exit s1 self1 = (None, s2)
         \<and> getenv s2 ''A'' = Some ''x''"
  by (simp add: EnvVarContext_enter_def EnvVarContext_exit_def heap_get_def dict_set_or_del_def
      environ_setitem_def environ_delitem_def valid_name_def valid_value_def dict_contains_def
      dict_keys_def dict_get_def getenv_def dict_delitem_def)

text \<open>
  C1. For every environment and every override dictionary \<open>ovr\<close>, whatever names and
  values it holds: \<open>__enter__\<close> followed by \<open>__exit__\<close> leaves every variable named in
  \<open>ovr\<close> with the value, or the absence, it had before \<open>__enter__\<close>. \<open>__enter__\<close> returns
  when the store accepts every name and value of \<open>ovr\<close>; when it raises instead,
  \<open>__exit__\<close> run in the state it leaves restores the variables all the same. The
  environment at the start holds accepted names and values only.
\<close>

theorem enter_exit_restores_overridden:
  assumes "heap_get (heap s) (env_vars self) = Some ovr" and "is_dict ovr"
    and "valid_environ (os_environ s)" and "name \<in> dict_keys ovr"
  shows "\<exists>e s1 self1 s2.
           EnvVarContext_enter s self = (e, s1, self1)
           \<and> (valid_overrides ovr \<longrightarrow> e = None)
           \<and> EnvVarContext_exit s1 self1 = (None, s2)
           \<and> getenv s2 name = getenv s name"
proof -
  obtain e saved env1 where r: "enter_loop ovr ([], os_environ s) = (e, saved, env1)"
    by (metis prod_cases3)
  obtain e' env2 where x: "exit_loop saved env1 = (e', env2)"
    by (metis surj_pair)
  let ?s1 = "s\<lparr>os_environ := env1\<rparr>"
  let ?self1 = "self\<lparr>saved_env_vars := Some saved\<rparr>"
  have none: "e' = None" and restored: "dict_get env2 name = dict_get (os_environ s) name"
    using enter_then_exit_loop[OF r assms(2,3) x] by simp_all
  have "EnvVarContext_enter s self = (e, ?s1, ?self1)"
    using assms(1) r by (rule enter_outcome)
  moreover have "valid_overrides ovr \<longrightarrow> e = None"
    using enter_loop_returns[OF r assms(3)] by simp
  moreover have "EnvVarContext_exit ?s1 ?self1 = (None, ?s1\<lparr>os_environ := env2\<rparr>)"
    using x none by (simp add: exit_outcome)
  moreover have "getenv (?s1\<lparr>os_environ := env2\<rparr>) name = getenv s name"
    using restored by (simp add: getenv_def)
  ultimately show ?thesis by blast
qed

theorem enter_exit_restores_overridden_witness:
  "heap_get (heap \<lparr>os_environ = [(''A'', ''x''), (''C'', ''z'')],
                   heap = [[(''A'', None), (''B'', Some ''y''), (''C'', Some ''w'')]]\<rparr>)
            (env_vars \<lparr>env_vars = 0, saved_env_vars = None\<rparr>)
     = Some [(''A'', None), (''B'', Some ''y''), (''C'', Some ''w'')]
   \<and> is_dict [(''A'', None :: string option), (''B'', Some ''y''), (''C'', Some ''w'')]
   \<and> valid_environ [(''A'', ''x''), (''C'', ''z'')]
   \<and> ''A'' \<in> dict_keys [(''A'', None :: string option), (''B'', Some ''y''), (''C'', Some ''w'')]
   \<and> valid_overrides [(''A'', None), (''B'', Some ''y''), (''C'', Some ''w'')]
   \<and> (\<exists>s1 self1 s2.
         EnvVarContext_enter \<lparr>os_environ = [(''A'', ''x''), (''C'', ''z'')],
                               heap = [[(''A'', None), (''B'', Some ''y''), (''C'', Some ''w'')]]\<rparr>
                             \<lparr>env_vars = 0, saved_env_vars = None\<rparr> = (None, s1, self1)
         \<and> EnvVarContext_exit s1 self1 = (None, s2)
         \<and> getenv s2 ''A'' = Some ''x'')"
proof -
  let ?ovr = "[(''A'', None :: string option), (''B'', Some ''y''), (''C'', Some ''w'')]"
  let ?s = "\<lparr>os_environ = [(''A'', ''x''), (''C'', ''z'')], heap = [?ovr]\<rparr>"
  let ?self = "\<lparr>env_vars = 0, saved_env_vars = None\<rparr>"
  have h1: "heap_get (heap ?s) (env_vars ?self) = Some ?ovr" by (simp add: heap_get_def)
  have h2: "is_dict ?ovr" by (simp add: is_dict_def)
  have h3: "valid_environ (os_environ ?s)" by (simp add: valid_environ_def valid_name_def valid_value_def)
  have h4: "''A'' \<in> dict_keys ?ovr" by (simp add: dict_keys_def)
  have h5: "valid_overrides ?ovr" by (simp add: valid_overrides_def valid_name_def valid_value_def)
  have g: "getenv ?s ''A'' = Some ''x''" by (simp add: getenv_def dict_get_def)
  have e: "os_environ ?s = [(''A'', ''x''), (''C'', ''z'')]" by simp
  show ?thesis
    using h1 h2 h3 h4 h5 enter_exit_restores_overridden[OF h1 h2 h3 h4] unfolding g e by blast
qed

text \<open>
  C2. For every environment, every override dictionary \<open>ovr\<close> and every name that is not
  a key of \<open>ovr\<close>: whether \<open>__enter__\<close> and \<open>__exit__\<close> return or raise, the name has in
  the state each of them leaves the value, or the absence, it had at the start. Both
  return when the store accepts every name and value involved.
\<close>

theorem enter_exit_leave_other_names:
  assumes "heap_get (heap s) (env_vars self) = Some ovr" and "name \<notin> dict_keys ovr"
  shows "\<exists>e s1 self1 e' s2.
           EnvVarContext_enter s self = (e, s1, self1)
           \<and> getenv s1 name = getenv s name
           \<and> EnvVarContext_exit s1 self1 = (e', s2)
           \<and> getenv s2 name = getenv s name
           \<and> (is_dict ovr \<and> valid_environ (os_environ s) \<and> valid_overrides ovr
                \<longrightarrow> e = None \<and> e' = None)"
proof -
  obtain e saved env1 where r: "enter_loop ovr ([], os_environ s) = (e, saved, env1)"
    by (metis prod_cases3)
  obtain e' env2 where x: "exit_loop saved env1 = (e', env2)"
    by (metis surj_pair)
  let ?s1 = "s\<lparr>os_environ := env1\<rparr>"
  let ?self1 = "self\<lparr>saved_env_vars := Some saved\<rparr>"
  let ?s2 = "?s1\<lparr>os_environ := env2\<rparr>"
  have not_saved: "name \<notin> dict_keys saved"
    using enter_loop_saved_keys[OF r] assms(2) by (auto simp: dict_keys_def)
  have g1: "dict_get env1 name = dict_get (os_environ s) name"
    using r assms(2) by (rule enter_loop_env_untouched_later)
  have g2: "dict_get env2 name = dict_get env1 name"
    using x not_saved by (rule exit_loop_frame)
  have "EnvVarContext_enter s self = (e, ?s1, ?self1)"
    using assms(1) r by (rule enter_outcome)
  moreover have "getenv ?s1 name = getenv s name"
    using g1 by (simp add: getenv_def)
  moreover have "EnvVarContext_exit ?s1 ?self1 = (e', ?s2)"
    using x by (simp add: exit_outcome)
  moreover have "getenv ?s2 name = getenv s name"
    using g1 g2 by (simp add: getenv_def)
  moreover have "is_dict ovr \<and> valid_environ (os_environ s) \<and> valid_overrides ovr
                   \<longrightarrow> e = None \<and> e' = None"
    using enter_loop_returns[OF r] enter_then_exit_loop(1)[OF r _ _ x] by blast
  ultimately show ?thesis by blast
qed

theorem enter_exit_leave_other_names_witness:
  "heap_get (heap \<lparr>os_environ = [(''A'', ''x''), (''W'', ''z'')],
                   heap = [[(''A'', None), (''B'', Some ''y'')]]\<rparr>)
            (env_vars \<lparr>env_vars = 0, saved_env_vars = None\<rparr>)
     = Some [(''A'', None), (''B'', Some ''y'')]
   \<and> ''W'' \<notin> dict_keys [(''A'', None :: string option), (''B'', Some ''y'')]
   \<and> is_dict [(''A'', None :: string option), (''B'', Some ''y'')]
   \<and> valid_environ [(''A'', ''x''), (''W'', ''z'')]
   \<and> valid_overrides [(''A'', None), (''B'', Some ''y'')]
   \<and> (\<exists>s1 self1 s2.
         EnvVarContext_enter \<lparr>os_environ = [(''A'', ''x''), (''W'', ''z'')],
                               heap = [[(''A'', None), (''B'', Some ''y'')]]\<rparr>
                             \<lparr>env_vars = 0, saved_env_vars = None\<rparr> = (None, s1, self1)
         \<and> getenv s1 ''W'' = Some ''z''
         \<and> EnvVarContext_exit s1 self1 = (None, s2)
         \<and> getenv s2 ''W'' = Some ''z'')"
proof -
  let ?ovr = "[(''A'', None :: string option), (''B'', Some ''y'')]"
  let ?s = "\<lparr>os_environ = [(''A'', ''x''), (''W'', ''z'')], heap = [?ovr]\<rparr>"
  let ?self = "\<lparr>env_vars = 0, saved_env_vars = None\<rparr>"
  have h1: "heap_get (heap ?s) (env_vars ?self) = Some ?ovr" by (simp add: heap_get_def)
  have h2: "''W'' \<notin> dict_keys ?ovr" by (simp add: dict_keys_def)
  have h3: "is_dict ?ovr" by (simp add: is_dict_def)
  have h4: "valid_environ (os_environ ?s)" by (simp add: valid_environ_def valid_name_def valid_value_def)
  have h5: "valid_overrides ?ovr" by (simp add: valid_overrides_def valid_name_def valid_value_def)
  have g: "getenv ?s ''W'' = Some ''z''" by (simp add: getenv_def dict_get_def)
  have e: "os_environ ?s = [(''A'', ''x''), (''W'', ''z'')]" by simp
  show ?thesis
    using h1 h2 h3 h4 h5 enter_exit_leave_other_names[OF h1 h2] unfolding g e by blast
qed

text \<open>What \<open>__enter__\<close> does when the store accepts every override.\<close>

lemma enter_returns:
  assumes "heap_get (heap s) (env_vars self) = Some ovr" and "is_dict ovr"
    and "valid_overrides ovr" and "valid_environ (os_environ s)"
  shows "\<exists>saved env1.
           EnvVarContext_enter s self
             = (None, s\<lparr>os_environ := env1\<rparr>, self\<lparr>saved_env_vars := Some saved\<rparr>)
           \<and> valid_environ env1
           \<and> (\<forall>n v. (n, v) \<in> set ovr \<longrightarrow> dict_get env1 n = v)
           \<and> is_dict saved
           \<and> (\<forall>k x. (k, Some x) \<in> set saved \<longrightarrow> valid_name k \<and> valid_value x)
           \<and> (\<forall>n. n \<in> dict_keys ovr \<longrightarrow> map_of saved n = Some (dict_get (os_environ s) n))"
proof -
  obtain e saved env1 where r0: "enter_loop ovr ([], os_environ s) = (e, saved, env1)"
    by (metis prod_cases3)
  have "e = None" using r0 assms(4,3) by (rule enter_loop_returns)
  with r0 have r: "enter_loop ovr ([], os_environ s) = (None, saved, env1)" by simp
  have "EnvVarContext_enter s self
          = (None, s\<lparr>os_environ := env1\<rparr>, self\<lparr>saved_env_vars := Some saved\<rparr>)"
    using assms(1) r by (rule enter_outcome)
  moreover have "valid_environ env1" using r assms(4) by (rule enter_loop_valid)
  moreover have "\<forall>n v. (n, v) \<in> set ovr \<longrightarrow> dict_get env1 n = v"
    using enter_loop_env_applies[OF r assms(2)] is_dict_lookup[OF assms(2)] by blast
  moreover have "is_dict saved"
    using r by (rule enter_loop_saved_is_dict) (simp add: is_dict_def)
  moreover have "\<forall>k x. (k, Some x) \<in> set saved \<longrightarrow> valid_name k \<and> valid_value x"
    using r assms(2,4) by (rule enter_loop_saved_storable)
  moreover have "\<forall>n. n \<in> dict_keys ovr \<longrightarrow> map_of saved n = Some (dict_get (os_environ s) n)"
  proof (intro allI impI)
    fix n
    assume "n \<in> dict_keys ovr"
    with enter_loop_saves_all[OF r] have "n \<in> dict_keys saved" by blast
    then obtain v where v: "map_of saved n = Some v" using in_keys_lookup by fastforce
    with enter_loop_saved_values[OF r assms(2), of n v] have "v = dict_get (os_environ s) n"
      by (simp add: dict_keys_def)
    with v show "map_of saved n = Some (dict_get (os_environ s) n)" by simp
  qed
  ultimately show ?thesis by blast
qed

text \<open>What \<open>__exit__\<close> does when the store accepts every saved value.\<close>

lemma exit_returns:
  assumes "saved_env_vars self = Some saved" and "is_dict saved"
    and "\<forall>k x. (k, Some x) \<in> set saved \<longrightarrow> valid_name k \<and> valid_value x"
    and "valid_environ (os_environ s)"
  shows "\<exists>env2.
           EnvVarContext_exit s self = (None, s\<lparr>os_environ := env2\<rparr>)
           \<and> valid_environ env2
           \<and> (\<forall>n v. map_of saved n = Some v \<longrightarrow> dict_get env2 n = v)"
proof -
  obtain e env2 where x0: "exit_loop saved (os_environ s) = (e, env2)"
    by (metis surj_pair)
  have "e = None" using x0 assms(4,3) by (rule exit_loop_returns)
  with x0 have x: "exit_loop saved (os_environ s) = (None, env2)" by simp
  have "EnvVarContext_exit s self = (None, s\<lparr>os_environ := env2\<rparr>)"
    using assms(1) x by (rule exit_outcome)
  moreover have "valid_environ env2" using x assms(4) by (rule exit_loop_valid)
  moreover have "\<forall>n v. map_of saved n = Some v \<longrightarrow> dict_get env2 n = v"
    using exit_loop_restores[OF x assms(2)] by blast
  ultimately show ?thesis by blast
qed

lemma member_key: "(k, v) \<in> set d \<Longrightarrow> k \<in> dict_keys d"
  by (force simp: dict_keys_def)

text \<open>
  C3. If a variable has the value \<open>x\<close> before \<open>__enter__\<close> and the override dictionary
  maps it to \<open>None\<close>, then it is absent from the environment after \<open>__enter__\<close> and has
  the value \<open>x\<close> again after \<open>__exit__\<close>. The names and values of the override
  dictionary and of the environment are ones the store accepts, so both calls return.
\<close>

theorem present_to_unset_round_trip:
  assumes "heap_get (heap s) (env_vars self) = Some ovr" and "is_dict ovr"
    and "valid_overrides ovr" and "valid_environ (os_environ s)"
    and "(name, None) \<in> set ovr" and "getenv s name = Some x"
  shows "\<exists>s1 self1 s2.
           EnvVarContext_enter s self = (None, s1, self1)
           \<and> getenv s1 name = None
           \<and> EnvVarContext_exit s1 self1 = (None, s2)
           \<and> getenv s2 name = Some x"
proof -
  obtain saved env1 where
    e: "EnvVarContext_enter s self
          = (None, s\<lparr>os_environ := env1\<rparr>, self\<lparr>saved_env_vars := Some saved\<rparr>)"
    and v1: "valid_environ env1"
    and applied: "\<forall>n v. (n, v) \<in> set ovr \<longrightarrow> dict_get env1 n = v"
    and d: "is_dict saved"
    and st: "\<forall>k x. (k, Some x) \<in> set saved \<longrightarrow> valid_name k \<and> valid_value x"
    and sv: "\<forall>n. n \<in> dict_keys ovr \<longrightarrow> map_of saved n = Some (dict_get (os_environ s) n)"
    using enter_returns[OF assms(1-4)] by blast
  let ?s1 = "s\<lparr>os_environ := env1\<rparr>"
  let ?self1 = "self\<lparr>saved_env_vars := Some saved\<rparr>"
  obtain env2 where
    x: "EnvVarContext_exit ?s1 ?self1 = (None, ?s1\<lparr>os_environ := env2\<rparr>)"
    and restored: "\<forall>n v. map_of saved n = Some v \<longrightarrow> dict_get env2 n = v"
    using exit_returns[of ?self1 saved ?s1] d st v1 by auto
  have g1: "getenv ?s1 name = None"
    using applied assms(5) by (simp add: getenv_def)
  have "map_of saved name = Some (Some x)"
    using sv member_key[OF assms(5)] assms(6) by (simp add: getenv_def)
  with restored have g2: "getenv (?s1\<lparr>os_environ := env2\<rparr>) name = Some x"
    by (simp add: getenv_def)
  from e g1 x g2 show ?thesis by blast
qed

theorem present_to_unset_round_trip_witness:
  "heap_get (heap \<lparr>os_environ = [(''V'', ''x'')], heap = [[(''V'', None)]]\<rparr>)
            (env_vars \<lparr>env_vars = 0, saved_env_vars = None\<rparr>) = Some [(''V'', None)]
   \<and> is_dict [(''V'', None :: string option)]
   \<and> valid_overrides [(''V'', None)]
   \<and> valid_environ (os_environ \<lparr>os_environ = [(''V'', ''x'')], heap = [[(''V'', None)]]\<rparr>)
   \<and> (''V'', None) \<in> set [(''V'', None :: string option)]
   \<and> getenv \<lparr>os_environ = [(''V'', ''x'')], heap = [[(''V'', None)]]\<rparr> ''V'' = Some ''x''
   \<and> (\<exists>s1 self1 s2.
         EnvVarContext_enter \<lparr>os_environ = [(''V'', ''x'')], heap = [[(''V'', None)]]\<rparr>
                             \<lparr>env_vars = 0, saved_env_vars = None\<rparr> = (None, s1, self1)
         \<and> getenv s1 ''V'' = None
         \<and> EnvVarContext_exit s1 self1 = (None, s2)
         \<and> getenv s2 ''V'' = Some ''x'')"
proof -
  let ?ovr = "[(''V'', None :: string option)]"
  let ?s = "\<lparr>os_environ = [(''V'', ''x'')], heap = [?ovr]\<rparr>"
  let ?self = "\<lparr>env_vars = 0, saved_env_vars = None\<rparr>"
  have h1: "heap_get (heap ?s) (env_vars ?self) = Some ?ovr" by (simp add: heap_get_def)
  have h2: "is_dict ?ovr" by (simp add: is_dict_def)
  have h3: "valid_overrides ?ovr" by (simp add: valid_overrides_def valid_name_def)
  have h4: "valid_environ (os_environ ?s)"
    by (simp add: valid_environ_def valid_name_def valid_value_def)
  have h5: "(''V'', None) \<in> set ?ovr" by simp
  have h6: "getenv ?s ''V'' = Some ''x''" by (simp add: getenv_def dict_get_def)
  show ?thesis
    using h1 h2 h3 h4 h5 h6 present_to_unset_round_trip[OF h1 h2 h3 h4 h5 h6] by blast
qed

text \<open>
  C4. If a variable is absent from the environment before \<open>__enter__\<close> and the override
  dictionary maps it to a string \<open>v\<close>, then it has the value \<open>v\<close> after \<open>__enter__\<close> and
  is absent again after \<open>__exit__\<close>. The names and values of the override dictionary
  and of the environment are ones the store accepts, so both calls return.
\<close>

theorem unset_round_trip:
  assumes "heap_get (heap s) (env_vars self) = Some ovr" and "is_dict ovr"
    and "valid_overrides ovr" and "valid_environ (os_environ s)"
    and "(name, Some v) \<in> set ovr" and "getenv s name = None"
  shows "\<exists>s1 self1 s2.
           EnvVarContext_enter s self = (None, s1, self1)
           \<and> getenv s1 name = Some v
           \<and> EnvVarContext_exit s1 self1 = (None, s2)
           \<and> getenv s2 name = None"
proof -
  obtain saved env1 where
    e: "EnvVarContext_enter s self
          = (None, s\<lparr>os_environ := env1\<rparr>, self\<lparr>saved_env_vars := Some saved\<rparr>)"
    and v1: "valid_environ env1"
    and applied: "\<forall>n v. (n, v) \<in> set ovr \<longrightarrow> dict_get env1 n = v"
    and d: "is_dict saved"
    and st: "\<forall>k x. (k, Some x) \<in> set saved \<longrightarrow> valid_name k \<and> valid_value x"
    and sv: "\<forall>n. n \<in> dict_keys ovr \<longrightarrow> map_of saved n = Some (dict_get (os_environ s) n)"
    using enter_returns[OF assms(1-4)] by blast
  let ?s1 = "s\<lparr>os_environ := env1\<rparr>"
  let ?self1 = "self\<lparr>saved_env_vars := Some saved\<rparr>"
  obtain env2 where
    x: "EnvVarContext_exit ?s1 ?self1 = (None, ?s1\<lparr>os_environ := env2\<rparr>)"
    and restored: "\<forall>n v. map_of saved n = Some v \<longrightarrow> dict_get env2 n = v"
    using exit_returns[of ?self1 saved ?s1] d st v1 by auto
  have g1: "getenv ?s1 name = Some v"
    using applied assms(5) by (simp add: getenv_def)
  have "map_of saved name = Some None"
    using sv member_key[OF assms(5)] assms(6) by (simp add: getenv_def)
  with restored have g2: "getenv (?s1\<lparr>os_environ := env2\<rparr>) name = None"
    by (simp add: getenv_def)
  from e g1 x g2 show ?thesis by blast
qed

theorem unset_round_trip_witness:
  "heap_get (heap \<lparr>os_environ = [(''P'', ''q'')], heap = [[(''V'', Some ''val'')]]\<rparr>)
            (env_vars \<lparr>env_vars = 0, saved_env_vars = None\<rparr>) = Some [(''V'', Some ''val'')]
   \<and> is_dict [(''V'', Some ''val'')]
   \<and> valid_overrides [(''V'', Some ''val'')]
   \<and> valid_environ (os_environ \<lparr>os_environ = [(''P'', ''q'')], heap = [[(''V'', Some ''val'')]]\<rparr>)
   \<and> (''V'', Some ''val'') \<in> set [(''V'', Some ''val'')]
   \<and> getenv \<lparr>os_environ = [(''P'', ''q'')], heap = [[(''V'', Some ''val'')]]\<rparr> ''V'' = None
   \<and> (\<exists>s1 self1 s2.
         EnvVarContext_enter \<lparr>os_environ = [(''P'', ''q'')], heap = [[(''V'', Some ''val'')]]\<rparr>
                             \<lparr>env_vars = 0, saved_env_vars = None\<rparr> = (None, s1, self1)
         \<and> getenv s1 ''V'' = Some ''val''
         \<and> EnvVarContext_exit s1 self1 = (None, s2)
         \<and> getenv s2 ''V'' = None)"
proof -
  let ?ovr = "[(''V'', Some ''val'')]"
  let ?s = "\<lparr>os_environ = [(''P'', ''q'')], heap = [?ovr]\<rparr>"
  let ?self = "\<lparr>env_vars = 0, saved_env_vars = None\<rparr>"
  have h1: "heap_get (heap ?s) (env_vars ?self) = Some ?ovr" by (simp add: heap_get_def)
  have h2: "is_dict ?ovr" by (simp add: is_dict_def)
  have h3: "valid_overrides ?ovr" by (simp add: valid_overrides_def valid_name_def valid_value_def)
  have h4: "valid_environ (os_environ ?s)"
    by (simp add: valid_environ_def valid_name_def valid_value_def)
  have h5: "(''V'', Some ''val'') \<in> set ?ovr" by simp
  have h6: "getenv ?s ''V'' = None" by (simp add: getenv_def dict_get_def)
  show ?thesis
    using h1 h2 h3 h4 h5 h6 unset_round_trip[OF h1 h2 h3 h4 h5 h6] by blast
qed

text \<open>
  C5. Nested scopes compose. A variable starts absent; an outer context that overrides it
  to \<open>a\<close> is entered, then an inner context that overrides it to \<open>b\<close>. All four calls
  return; the variable is \<open>a\<close> after the outer \<open>__enter__\<close>, \<open>b\<close> after the inner one,
  \<open>a\<close> again after the inner \<open>__exit__\<close>, and absent after the outer \<open>__exit__\<close>. The
  names and values of the two override dictionaries and of the environment are ones the
  store accepts.
\<close>

theorem nested_scopes_compose:
  assumes "heap_get (heap s) (env_vars outer) = Some ovr_outer" and "is_dict ovr_outer"
    and "valid_overrides ovr_outer"
    and "heap_get (heap s) (env_vars inner) = Some ovr_inner" and "is_dict ovr_inner"
    and "valid_overrides ovr_inner"
    and "valid_environ (os_environ s)"
    and "(name, Some a) \<in> set ovr_outer" and "(name, Some b) \<in> set ovr_inner"
    and "getenv s name = None"
  shows "\<exists>s1 outer1 s2 inner1 s3 s4.
           EnvVarContext_enter s outer = (None, s1, outer1) \<and> getenv s1 name = Some a
           \<and> EnvVarContext_enter s1 inner = (None, s2, inner1) \<and> getenv s2 name = Some b
           \<and> EnvVarContext_exit s2 inner1 = (None, s3) \<and> getenv s3 name = Some a
           \<and> EnvVarContext_exit s3 outer1 = (None, s4) \<and> getenv s4 name = None"
proof -
  obtain saved_o env1 where
    e1: "EnvVarContext_enter s outer
           = (None, s\<lparr>os_environ := env1\<rparr>, outer\<lparr>saved_env_vars := Some saved_o\<rparr>)"
    and v1: "valid_environ env1"
    and applied1: "\<forall>n v. (n, v) \<in> set ovr_outer \<longrightarrow> dict_get env1 n = v"
    and d_o: "is_dict saved_o"
    and st_o: "\<forall>k x. (k, Some x) \<in> set saved_o \<longrightarrow> valid_name k \<and> valid_value x"
    and sv_o: "\<forall>n. n \<in> dict_keys ovr_outer \<longrightarrow> map_of saved_o n = Some (dict_get (os_environ s) n)"
    using enter_returns[OF assms(1,2,3,7)] by blast
  let ?s1 = "s\<lparr>os_environ := env1\<rparr>"
  let ?outer1 = "outer\<lparr>saved_env_vars := Some saved_o\<rparr>"
  have inner_ref: "heap_get (heap ?s1) (env_vars inner) = Some ovr_inner"
    using assms(4) by simp
  have v1': "valid_environ (os_environ ?s1)" using v1 by simp
  obtain saved_i env2 where
    e2: "EnvVarContext_enter ?s1 inner
           = (None, ?s1\<lparr>os_environ := env2\<rparr>, inner\<lparr>saved_env_vars := Some saved_i\<rparr>)"
    and v2: "valid_environ env2"
    and applied2: "\<forall>n v. (n, v) \<in> set ovr_inner \<longrightarrow> dict_get env2 n = v"
    and d_i: "is_dict saved_i"
    and st_i: "\<forall>k x. (k, Some x) \<in> set saved_i \<longrightarrow> valid_name k \<and> valid_value x"
    and sv_i: "\<forall>n. n \<in> dict_keys ovr_inner \<longrightarrow> map_of saved_i n = Some (dict_get (os_environ ?s1) n)"
    using enter_returns[OF inner_ref assms(5,6) v1'] by blast
  let ?s2 = "?s1\<lparr>os_environ := env2\<rparr>"
  let ?inner1 = "inner\<lparr>saved_env_vars := Some saved_i\<rparr>"
  obtain env3 where
    x2: "EnvVarContext_exit ?s2 ?inner1 = (None, ?s2\<lparr>os_environ := env3\<rparr>)"
    and v3: "valid_environ env3"
    and restored_i: "\<forall>n v. map_of saved_i n = Some v \<longrightarrow> dict_get env3 n = v"
    using exit_returns[of ?inner1 saved_i ?s2] d_i st_i v2 by auto
  let ?s3 = "?s2\<lparr>os_environ := env3\<rparr>"
  obtain env4 where
    x1: "EnvVarContext_exit ?s3 ?outer1 = (None, ?s3\<lparr>os_environ := env4\<rparr>)"
    and restored_o: "\<forall>n v. map_of saved_o n = Some v \<longrightarrow> dict_get env4 n = v"
    using exit_returns[of ?outer1 saved_o ?s3] d_o st_o v3 by auto
  let ?s4 = "?s3\<lparr>os_environ := env4\<rparr>"
  have g1: "getenv ?s1 name = Some a"
    using applied1 assms(8) by (simp add: getenv_def)
  have g2: "getenv ?s2 name = Some b"
    using applied2 assms(9) by (simp add: getenv_def)
  have "map_of saved_i name = Some (Some a)"
    using sv_i member_key[OF assms(9)] g1 by (simp add: getenv_def)
  with restored_i have g3: "getenv ?s3 name = Some a"
    by (simp add: getenv_def)
  have "map_of saved_o name = Some None"
    using sv_o member_key[OF assms(8)] assms(10) by (simp add: getenv_def)
  with restored_o have g4: "getenv ?s4 name = None"
    by (simp add: getenv_def)
  from e1 g1 e2 g2 x2 g3 x1 g4 show ?thesis by blast
qed

theorem nested_scopes_compose_witness:
  "heap_get (heap \<lparr>os_environ = [(''P'', ''q'')], heap = [[(''V'', Some ''a'')], [(''V'', Some ''b'')]]\<rparr>)
            (env_vars \<lparr>env_vars = 0, saved_env_vars = None\<rparr>) = Some [(''V'', Some ''a'')]
   \<and> is_dict [(''V'', Some ''a'')] \<and> valid_overrides [(''V'', Some ''a'')]
   \<and> heap_get (heap \<lparr>os_environ = [(''P'', ''q'')], heap = [[(''V'', Some ''a'')], [(''V'', Some ''b'')]]\<rparr>)
            (env_vars \<lparr>env_vars = 1, saved_env_vars = None\<rparr>) = Some [(''V'', Some ''b'')]
   \<and> is_dict [(''V'', Some ''b'')] \<and> valid_overrides [(''V'', Some ''b'')]
   \<and> valid_environ (os_environ \<lparr>os_environ = [(''P'', ''q'')],
                                   heap = [[(''V'', Some ''a'')], [(''V'', Some ''b'')]]\<rparr>)
   \<and> (''V'', Some ''a'') \<in> set [(''V'', Some ''a'')]
   \<and> (''V'', Some ''b'') \<in> set [(''V'', Some ''b'')]
   \<and> getenv \<lparr>os_environ = [(''P'', ''q'')], heap = [[(''V'', Some ''a'')], [(''V'', Some ''b'')]]\<rparr> ''V'' = None
   \<and> (\<exists>s1 outer1 s2 inner1 s3 s4.
         EnvVarContext_enter \<lparr>os_environ = [(''P'', ''q'')], heap = [[(''V'', Some ''a'')], [(''V'', Some ''b'')]]\<rparr>
                             \<lparr>env_vars = 0, saved_env_vars = None\<rparr> = (None, s1, outer1)
         \<and> getenv s1 ''V'' = Some ''a''
         \<and> EnvVarContext_enter s1 \<lparr>env_vars = 1, saved_env_vars = None\<rparr> = (None, s2, inner1)
         \<and> getenv s2 ''V'' = Some ''b''
         \<and> EnvVarContext_exit s2 inner1 = (None, s3) \<and> getenv s3 ''V'' = Some ''a''
         \<and> EnvVarContext_exit s3 outer1 = (None, s4) \<and> getenv s4 ''V'' = None)"
proof -
  let ?o1 = "[(''V'', Some ''a'')]"
  let ?o2 = "[(''V'', Some ''b'')]"
  let ?s = "\<lparr>os_environ = [(''P'', ''q'')], heap = [?o1, ?o2]\<rparr>"
  let ?outer = "\<lparr>env_vars = 0, saved_env_vars = None\<rparr>"
  let ?inner = "\<lparr>env_vars = 1, saved_env_vars = None\<rparr>"
  have h1: "heap_get (heap ?s) (env_vars ?outer) = Some ?o1" by (simp add: heap_get_def)
  have h2: "is_dict ?o1" by (simp add: is_dict_def)
  have h3: "valid_overrides ?o1" by (simp add: valid_overrides_def valid_name_def valid_value_def)
  have h4: "heap_get (heap ?s) (env_vars ?inner) = Some ?o2" by (simp add: heap_get_def)
  have h5: "is_dict ?o2" by (simp add: is_dict_def)
  have h6: "valid_overrides ?o2" by (simp add: valid_overrides_def valid_name_def valid_value_def)
  have h7: "valid_environ (os_environ ?s)"
    by (simp add: valid_environ_def valid_name_def valid_value_def)
  have h8: "(''V'', Some ''a'') \<in> set ?o1" by simp
  have h9: "(''V'', Some ''b'') \<in> set ?o2" by simp
  have h10: "getenv ?s ''V'' = None" by (simp add: getenv_def dict_get_def)
  show ?thesis
    using h1 h2 h3 h4 h5 h6 h7 h8 h9 h10
      nested_scopes_compose[OF h1 h2 h3 h4 h5 h6 h7 h8 h9 h10] by blast
qed

text \<open>
  C10. \<open>__exit__\<close> changes only the variables recorded at \<open>__enter__\<close>, the names of the
  override dictionary. Whatever state \<open>s'\<close> the block leaves before \<open>__exit__\<close> runs, and
  whether \<open>__enter__\<close> and \<open>__exit__\<close> return or raise, a name outside the override
  dictionary has after \<open>__exit__\<close> the value, or the absence, it has in \<open>s'\<close>: what the
  block did to it persists. \<open>__exit__\<close> returns when the environments hold accepted
  names and values only.
\<close>

theorem exit_keeps_changes_to_other_names:
  assumes "heap_get (heap s) (env_vars self) = Some ovr" and "name \<notin> dict_keys ovr"
  shows "\<exists>e s1 self1.
           EnvVarContext_enter s self = (e, s1, self1)
           \<and> (\<forall>s'. \<exists>e' s2.
                 EnvVarContext_exit s' self1 = (e', s2)
                 \<and> getenv s2 name = getenv s' name
                 \<and> (is_dict ovr \<and> valid_environ (os_environ s) \<and> valid_environ (os_environ s')
                      \<longrightarrow> e' = None))"
proof -
  obtain e saved env1 where r: "enter_loop ovr ([], os_environ s) = (e, saved, env1)"
    by (metis prod_cases3)
  let ?s1 = "s\<lparr>os_environ := env1\<rparr>"
  let ?self1 = "self\<lparr>saved_env_vars := Some saved\<rparr>"
  have not_saved: "name \<notin> dict_keys saved"
    using enter_loop_saved_keys[OF r] assms(2) by (auto simp: dict_keys_def)
  have en: "EnvVarContext_enter s self = (e, ?s1, ?self1)"
    using assms(1) r by (rule enter_outcome)
  have "\<exists>e' s2. EnvVarContext_exit s' ?self1 = (e', s2)
                 \<and> getenv s2 name = getenv s' name
                 \<and> (is_dict ovr \<and> valid_environ (os_environ s) \<and> valid_environ (os_environ s')
                      \<longrightarrow> e' = None)" for s'
  proof -
    obtain e' env2 where x: "exit_loop saved (os_environ s') = (e', env2)"
      by (metis surj_pair)
    have "EnvVarContext_exit s' ?self1 = (e', s'\<lparr>os_environ := env2\<rparr>)"
      using x by (simp add: exit_outcome)
    moreover have "getenv (s'\<lparr>os_environ := env2\<rparr>) name = getenv s' name"
      using exit_loop_frame[OF x not_saved] by (simp add: getenv_def)
    moreover have "is_dict ovr \<and> valid_environ (os_environ s) \<and> valid_environ (os_environ s')
                     \<longrightarrow> e' = None"
      using exit_loop_returns[OF x] enter_loop_saved_storable[OF r] by blast
    ultimately show ?thesis by blast
  qed
  with en show ?thesis by blast
qed

theorem exit_keeps_changes_to_other_names_witness:
  "heap_get (heap \<lparr>os_environ = [(''A'', ''x''), (''W'', ''z'')], heap = [[(''A'', Some ''y'')]]\<rparr>)
            (env_vars \<lparr>env_vars = 0, saved_env_vars = None\<rparr>) = Some [(''A'', Some ''y'')]
   \<and> ''N'' \<notin> dict_keys [(''A'', Some ''y'')]
   \<and> is_dict [(''A'', Some ''y'')]
   \<and> valid_environ [(''A'', ''x''), (''W'', ''z'')]
   \<and> valid_environ [(''A'', ''y''), (''N'', ''new'')]
   \<and> (\<exists>e s1 self1 s2.
         EnvVarContext_enter \<lparr>os_environ = [(''A'', ''x''), (''W'', ''z'')], heap = [[(''A'', Some ''y'')]]\<rparr>
                             \<lparr>env_vars = 0, saved_env_vars = None\<rparr> = (e, s1, self1)
         \<and> EnvVarContext_exit (s1\<lparr>os_environ := [(''A'', ''y''), (''N'', ''new'')]\<rparr>) self1 = (None, s2)
         \<and> getenv s2 ''N'' = Some ''new'')"
proof -
  let ?ovr = "[(''A'', Some ''y'')]"
  let ?s = "\<lparr>os_environ = [(''A'', ''x''), (''W'', ''z'')], heap = [?ovr]\<rparr>"
  let ?self = "\<lparr>env_vars = 0, saved_env_vars = None\<rparr>"
  have h1: "heap_get (heap ?s) (env_vars ?self) = Some ?ovr" by (simp add: heap_get_def)
  have h2: "''N'' \<notin> dict_keys ?ovr" by (simp add: dict_keys_def)
  have h3: "is_dict ?ovr" by (simp add: is_dict_def)
  have h4: "valid_environ [(''A'', ''x''), (''W'', ''z'')]"
    by (simp add: valid_environ_def valid_name_def valid_value_def)
  have h5: "valid_environ [(''A'', ''y''), (''N'', ''new'')]"
    by (simp add: valid_environ_def valid_name_def valid_value_def)
  obtain e s1 self1 where en: "EnvVarContext_enter ?s ?self = (e, s1, self1)"
    and w: "\<And>s'. \<exists>e' s2. EnvVarContext_exit s' self1 = (e', s2)
                 \<and> getenv s2 ''N'' = getenv s' ''N''
                 \<and> (is_dict ?ovr \<and> valid_environ (os_environ ?s) \<and> valid_environ (os_environ s')
                      \<longrightarrow> e' = None)"
    using exit_keeps_changes_to_other_names[OF h1 h2] by blast
  let ?s' = "s1\<lparr>os_environ := [(''A'', ''y''), (''N'', ''new'')]\<rparr>"
  obtain e' s2 where x: "EnvVarContext_exit ?s' self1 = (e', s2)"
    and g: "getenv s2 ''N'' = getenv ?s' ''N''"
    and ok: "is_dict ?ovr \<and> valid_environ (os_environ ?s) \<and> valid_environ (os_environ ?s') \<longrightarrow> e' = None"
    using w[of ?s'] by blast
  from ok h3 h4 h5 have "e' = None" by simp
  moreover have "getenv ?s' ''N'' = Some ''new''" by (simp add: getenv_def dict_get_def)
  ultimately show ?thesis using h1 h2 h3 h4 h5 en x g by auto
qed

section \<open>Properties of the constructor\<close>

lemma dict_update_frame:
  "k \<notin> dict_keys other \<Longrightarrow> map_of (dict_update d other) k = map_of d k"
  by (induction d other rule: dict_update.induct) (auto simp: dict_keys_def map_of_dict_setitem)

lemma dict_update_applies:
  "is_dict other \<Longrightarrow> (k, v) \<in> set other \<Longrightarrow> map_of (dict_update d other) k = Some v"
proof (induction d other rule: dict_update.induct)
  case (1 d)
  then show ?case by simp
next
  case (2 d k' v' other)
  show ?case
  proof (cases "(k, v) \<in> set other")
    case True
    with "2.prems" have "is_dict other" by (simp add: is_dict_def)
    then show ?thesis using True "2.IH" by simp
  next
    case False
    with "2.prems" have eq: "k' = k" "v' = v" and "k \<notin> dict_keys other"
      by (auto simp: is_dict_def dict_keys_def)
    then show ?thesis by (simp add: dict_update_frame map_of_dict_setitem)
  qed
qed

lemma is_dict_update: "is_dict d \<Longrightarrow> is_dict (dict_update d other)"
  by (induction d other rule: dict_update.induct) (auto simp: is_dict_setitem)

lemma set_dict_update: "set (dict_update d other) \<subseteq> set d \<union> set other"
proof (induction d other rule: dict_update.induct)
  case (1 d)
  then show ?case by simp
next
  case (2 d k v other)
  then show ?case using set_dict_setitem[of d k v] by auto
qed

lemma valid_overrides_update:
  "valid_overrides d \<Longrightarrow> valid_overrides other \<Longrightarrow> valid_overrides (dict_update d other)"
  using set_dict_update[of d other] unfolding valid_overrides_iff by blast

lemma init_result:
  assumes "heap_get (heap s) env_vars_arg = Some m"
  shows "EnvVarContext_init s env_vars_arg kw =
           Inr (s\<lparr>heap := heap s @ [m, dict_update m kw]\<rparr>,
                \<lparr>env_vars = Suc (length (heap s)), saved_env_vars = None\<rparr>)"
  using assms
  by (simp add: EnvVarContext_init_def heap_alloc_def heap_set_def nth_append list_update_append)

lemma heap_get_fresh: "heap_get (h @ [m, d]) (Suc (length h)) = Some d"
  by (simp add: heap_get_def nth_append)

lemma heap_get_old: "heap_get h a = Some m \<Longrightarrow> heap_get (h @ h') a = Some m"
  by (auto simp: heap_get_def nth_append split: if_splits)

lemma heap_set_old_keeps_fresh:
  "a < length h \<Longrightarrow> heap_get (heap_set (h @ [m, d]) a m') (Suc (length h)) = Some d"
  by (simp add: heap_get_def heap_set_def nth_append list_update_append)

text \<open>
  C6. When an \<open>EnvVarContext\<close> is constructed from a mapping and keyword arguments, the
  keyword argument wins for a name that is in both: the override dictionary of the new
  context maps the name to the value of the keyword argument, and when \<open>__enter__\<close>
  returns the environment holds that value (the name is absent when the value is
  \<open>None\<close>). \<open>__enter__\<close> returns when the store accepts every name and value. The
  statement holds for every name among the keyword arguments, also one that is a key of
  the mapping.
\<close>

theorem keyword_argument_wins:
  assumes "heap_get (heap s) env_vars_arg = Some m" and "is_dict m" and "is_kwargs kw"
    and "(name, v) \<in> set kw"
  shows "\<exists>s1 self ovr e s2 self2.
           EnvVarContext_init s env_vars_arg kw = Inr (s1, self)
           \<and> heap_get (heap s1) (env_vars self) = Some ovr
           \<and> dict_get ovr name = Some v
           \<and> EnvVarContext_enter s1 self = (e, s2, self2)
           \<and> (e = None \<longrightarrow> getenv s2 name = v)
           \<and> (valid_environ (os_environ s) \<and> valid_overrides m \<and> valid_overrides kw
                \<longrightarrow> e = None)"
proof -
  let ?ovr = "dict_update m kw"
  let ?s1 = "s\<lparr>heap := heap s @ [m, ?ovr]\<rparr>"
  let ?self = "\<lparr>env_vars = Suc (length (heap s)), saved_env_vars = None\<rparr>"
  obtain e saved env1 where r: "enter_loop ?ovr ([], os_environ ?s1) = (e, saved, env1)"
    by (metis prod_cases3)
  let ?s2 = "?s1\<lparr>os_environ := env1\<rparr>"
  let ?self2 = "?self\<lparr>saved_env_vars := Some saved\<rparr>"
  have kw: "is_dict kw" using assms(3) by (simp add: is_kwargs_def)
  have i: "EnvVarContext_init s env_vars_arg kw = Inr (?s1, ?self)"
    using assms(1) by (rule init_result)
  have h: "heap_get (heap ?s1) (env_vars ?self) = Some ?ovr"
    by (simp add: heap_get_fresh)
  have l: "map_of ?ovr name = Some v"
    using kw assms(4) by (rule dict_update_applies)
  have d: "is_dict ?ovr"
    using assms(2) by (rule is_dict_update)
  have en: "EnvVarContext_enter ?s1 ?self = (e, ?s2, ?self2)"
    using h r by (rule enter_outcome)
  have g: "e = None \<longrightarrow> getenv ?s2 name = v"
  proof
    assume "e = None"
    with r have "enter_loop ?ovr ([], os_environ ?s1) = (None, saved, env1)" by simp
    then have "dict_get env1 name = v" using d l by (rule enter_loop_env_applies)
    then show "getenv ?s2 name = v" by (simp add: getenv_def)
  qed
  have ok: "valid_environ (os_environ s) \<and> valid_overrides m \<and> valid_overrides kw \<longrightarrow> e = None"
    using enter_loop_returns[OF r] valid_overrides_update[of m kw] by simp
  from i h l en g ok show ?thesis
    unfolding dict_get_def by blast
qed

theorem keyword_argument_wins_witness:
  "heap_get (heap \<lparr>os_environ = [(''X'', ''0'')], heap = [[(''X'', Some ''1'')]]\<rparr>) 0
     = Some [(''X'', Some ''1'')]
   \<and> is_dict [(''X'', Some ''1'')]
   \<and> is_kwargs [(''X'', Some ''2'')]
   \<and> (''X'', Some ''2'') \<in> set [(''X'', Some ''2'')]
   \<and> valid_environ [(''X'', ''0'')]
   \<and> valid_overrides [(''X'', Some ''1'')] \<and> valid_overrides [(''X'', Some ''2'')]
   \<and> (\<exists>s1 self ovr s2 self2.
         EnvVarContext_init \<lparr>os_environ = [(''X'', ''0'')], heap = [[(''X'', Some ''1'')]]\<rparr> 0
                            [(''X'', Some ''2'')] = Inr (s1, self)
         \<and> heap_get (heap s1) (env_vars self) = Some ovr
         \<and> dict_get ovr ''X'' = Some (Some ''2'')
         \<and> EnvVarContext_enter s1 self = (None, s2, self2)
         \<and> getenv s2 ''X'' = Some ''2'')"
proof -
  let ?m = "[(''X'', Some ''1'')]"
  let ?kw = "[(''X'', Some ''2'')]"
  let ?s = "\<lparr>os_environ = [(''X'', ''0'')], heap = [?m]\<rparr>"
  have h1: "heap_get (heap ?s) 0 = Some ?m" by (simp add: heap_get_def)
  have h2: "is_dict ?m" by (simp add: is_dict_def)
  have h3: "is_kwargs ?kw" by (simp add: is_kwargs_def is_dict_def dict_keys_def)
  have h4: "(''X'', Some ''2'') \<in> set ?kw" by simp
  have h5: "valid_environ (os_environ ?s)"
    by (simp add: valid_environ_def valid_name_def valid_value_def)
  have h6: "valid_overrides ?m" by (simp add: valid_overrides_def valid_name_def valid_value_def)
  have h7: "valid_overrides ?kw" by (simp add: valid_overrides_def valid_name_def valid_value_def)
  have e: "os_environ ?s = [(''X'', ''0'')]" by simp
  show ?thesis
    using h1 h2 h3 h4 h5 h6 h7 keyword_argument_wins[OF h1 h2 h3 h4] unfolding e by blast
qed

text \<open>
  C7. Constructing an \<open>EnvVarContext\<close> leaves \<open>os.environ\<close> as it is: the overrides are
  applied by \<open>__enter__\<close> only. The constructor copies the caller's mapping: every object
  that existed before the call, the caller's mapping among them, is unchanged after it;
  the override dictionary of the context is a new object that holds the items of the
  mapping, updated with the keyword arguments; and whatever the caller stores in its
  mapping after the construction, that dictionary stays as it is and \<open>__enter__\<close> has
  the same outcome: the same overrides applied, the same values saved.
\<close>

theorem init_is_lazy_and_copies:
  assumes "heap_get (heap s) env_vars_arg = Some m" and "is_kwargs kw"
  shows "\<exists>s1 self.
           EnvVarContext_init s env_vars_arg kw = Inr (s1, self)
           \<and> os_environ s1 = os_environ s
           \<and> take (length (heap s)) (heap s1) = heap s
           \<and> heap_get (heap s1) env_vars_arg = Some m
           \<and> length (heap s) \<le> env_vars self
           \<and> heap_get (heap s1) (env_vars self) = Some (dict_update m kw)
           \<and> (\<forall>k. k \<notin> dict_keys kw \<longrightarrow> dict_get (dict_update m kw) k = dict_get m k)
           \<and> (\<forall>k v. (k, v) \<in> set kw \<longrightarrow> dict_get (dict_update m kw) k = Some v)
           \<and> (\<forall>m'. heap_get (heap_set (heap s1) env_vars_arg m') (env_vars self)
                       = Some (dict_update m kw)
                 \<and> (\<exists>e s2 s2' self2.
                       EnvVarContext_enter s1 self = (e, s2, self2)
                       \<and> EnvVarContext_enter (s1\<lparr>heap := heap_set (heap s1) env_vars_arg m'\<rparr>) self
                           = (e, s2', self2)
                       \<and> os_environ s2' = os_environ s2))"
proof -
  let ?ovr = "dict_update m kw"
  let ?s1 = "s\<lparr>heap := heap s @ [m, ?ovr]\<rparr>"
  let ?self = "\<lparr>env_vars = Suc (length (heap s)), saved_env_vars = None\<rparr>"
  have kw: "is_dict kw" using assms(2) by (simp add: is_kwargs_def)
  have lt: "env_vars_arg < length (heap s)"
    using assms(1) by (simp add: heap_get_def split: if_splits)
  have i: "EnvVarContext_init s env_vars_arg kw = Inr (?s1, ?self)"
    using assms(1) by (rule init_result)
  have old: "heap_get (heap ?s1) env_vars_arg = Some m"
    using assms(1) by (simp add: heap_get_old)
  have new: "heap_get (heap ?s1) (env_vars ?self) = Some ?ovr"
    by (simp add: heap_get_fresh)
  have kept: "\<forall>k. k \<notin> dict_keys kw \<longrightarrow> dict_get ?ovr k = dict_get m k"
    by (simp add: dict_get_def dict_update_frame)
  have won: "\<forall>k v. (k, v) \<in> set kw \<longrightarrow> dict_get ?ovr k = Some v"
    using dict_update_applies[OF kw] by (simp add: dict_get_def)
  obtain e saved env1 where r: "enter_loop ?ovr ([], os_environ ?s1) = (e, saved, env1)"
    by (metis prod_cases3)
  have later: "heap_get (heap_set (heap ?s1) env_vars_arg m') (env_vars ?self) = Some ?ovr
               \<and> (\<exists>e s2 s2' self2.
                     EnvVarContext_enter ?s1 ?self = (e, s2, self2)
                     \<and> EnvVarContext_enter (?s1\<lparr>heap := heap_set (heap ?s1) env_vars_arg m'\<rparr>) ?self
                         = (e, s2', self2)
                     \<and> os_environ s2' = os_environ s2)" for m'
  proof -
    let ?t = "?s1\<lparr>heap := heap_set (heap ?s1) env_vars_arg m'\<rparr>"
    have still: "heap_get (heap_set (heap ?s1) env_vars_arg m') (env_vars ?self) = Some ?ovr"
      using lt by (simp add: heap_set_old_keeps_fresh)
    have e1: "EnvVarContext_enter ?s1 ?self
                = (e, ?s1\<lparr>os_environ := env1\<rparr>, ?self\<lparr>saved_env_vars := Some saved\<rparr>)"
      using new r by (rule enter_outcome)
    have "heap_get (heap ?t) (env_vars ?self) = Some ?ovr"
      using still by simp
    moreover have "enter_loop ?ovr ([], os_environ ?t) = (e, saved, env1)"
      using r by simp
    ultimately have e2: "EnvVarContext_enter ?t ?self
                = (e, ?t\<lparr>os_environ := env1\<rparr>, ?self\<lparr>saved_env_vars := Some saved\<rparr>)"
      by (rule enter_outcome)
    from still e1 e2 show ?thesis by simp
  qed
  from i old new kept won later show ?thesis by simp
qed

theorem init_is_lazy_and_copies_witness:
  "heap_get (heap \<lparr>os_environ = [(''A'', ''x'')], heap = [[(''X'', Some ''1'')]]\<rparr>) 0
     = Some [(''X'', Some ''1'')]
   \<and> is_kwargs [(''A'', None)]
   \<and> ''X'' \<notin> dict_keys [(''A'', None :: string option)]
   \<and> (''A'', None) \<in> set [(''A'', None :: string option)]
   \<and> (\<exists>s1 self e s2 s2' self2.
         EnvVarContext_init \<lparr>os_environ = [(''A'', ''x'')], heap = [[(''X'', Some ''1'')]]\<rparr> 0
                            [(''A'', None)] = Inr (s1, self)
         \<and> os_environ s1 = [(''A'', ''x'')]
         \<and> heap_get (heap s1) 0 = Some [(''X'', Some ''1'')]
         \<and> heap_get (heap s1) (env_vars self) = Some (dict_update [(''X'', Some ''1'')] [(''A'', None)])
         \<and> dict_get (dict_update [(''X'', Some ''1'')] [(''A'', None)]) ''X'' = Some (Some ''1'')
         \<and> dict_get (dict_update [(''X'', Some ''1'')] [(''A'', None)]) ''A'' = Some None
         \<and> heap_get (heap_set (heap s1) 0 [(''X'', Some ''9''), (''Z'', None)]) (env_vars self)
             = Some (dict_update [(''X'', Some ''1'')] [(''A'', None)])
         \<and> EnvVarContext_enter s1 self = (e, s2, self2)
         \<and> EnvVarContext_enter (s1\<lparr>heap := heap_set (heap s1) 0 [(''X'', Some ''9''), (''Z'', None)]\<rparr>) self
             = (e, s2', self2)
         \<and> os_environ s2' = os_environ s2)"
proof -
  let ?m = "[(''X'', Some ''1'')]"
  let ?kw = "[(''A'', None :: string option)]"
  let ?s = "\<lparr>os_environ = [(''A'', ''x'')], heap = [?m]\<rparr>"
  let ?m' = "[(''X'', Some ''9''), (''Z'', None)]"
  have h1: "heap_get (heap ?s) 0 = Some ?m" by (simp add: heap_get_def)
  have h2: "is_kwargs ?kw" by (simp add: is_kwargs_def is_dict_def dict_keys_def)
  have h3: "''X'' \<notin> dict_keys ?kw" by (simp add: dict_keys_def)
  have h4: "(''A'', None) \<in> set ?kw" by simp
  obtain s1 self where i: "EnvVarContext_init ?s 0 ?kw = Inr (s1, self)"
    and env: "os_environ s1 = os_environ ?s" and o: "heap_get (heap s1) 0 = Some ?m"
    and n: "heap_get (heap s1) (env_vars self) = Some (dict_update ?m ?kw)"
    and kept: "\<forall>k. k \<notin> dict_keys ?kw \<longrightarrow> dict_get (dict_update ?m ?kw) k = dict_get ?m k"
    and won: "\<forall>k v. (k, v) \<in> set ?kw \<longrightarrow> dict_get (dict_update ?m ?kw) k = Some v"
    and l: "\<And>m'. heap_get (heap_set (heap s1) 0 m') (env_vars self) = Some (dict_update ?m ?kw)
                 \<and> (\<exists>e s2 s2' self2.
                       EnvVarContext_enter s1 self = (e, s2, self2)
                       \<and> EnvVarContext_enter (s1\<lparr>heap := heap_set (heap s1) 0 m'\<rparr>) self = (e, s2', self2)
                       \<and> os_environ s2' = os_environ s2)"
    using init_is_lazy_and_copies[OF h1 h2] by blast
  from env have env': "os_environ s1 = [(''A'', ''x'')]" by simp
  from kept h3 have k1: "dict_get (dict_update ?m ?kw) ''X'' = Some (Some ''1'')"
    by (simp add: dict_get_def)
  from won h4 have k2: "dict_get (dict_update ?m ?kw) ''A'' = Some None" by blast
  from h1 h2 h3 h4 i env' o n k1 k2 l[of ?m'] show ?thesis by blast
qed

section \<open>Properties of write\_env\_vars\<close>

lemma write_env_vars_loop_eq:
  "write_env_vars_loop D kvs env_script =
     env_script @ concat (map (\<lambda>(k, v). export_line k v) (filter (\<lambda>(k, v). is_saved_name D k) kvs))"
  by (induction D kvs env_script rule: write_env_vars_loop.induct) (auto simp: is_saved_name_def)

lemma sorted_pairs_fst: "sorted (kvs :: (string \<times> string) list) \<Longrightarrow> sorted (map fst kvs)"
  by (induction kvs) (auto simp: less_eq_prod_def)

lemma sorted_items_keys: "sorted (map fst (sort (kvs :: (string \<times> string) list)))"
  by (rule sorted_pairs_fst) simp

lemma sorted_items_distinct:
  "is_dict kvs \<Longrightarrow> distinct (map fst (sort (kvs :: (string \<times> string) list)))"
  by (simp add: is_dict_def distinct_map)

text \<open>
  C8, as the claim states it, fails: a variable whose name is in neither list of names
  but starts with \<open>YB_\<close> is written to the file.
\<close>

theorem write_env_vars_prefix_counterexample:
  "''YB_DEBUG'' \<notin> ENV_VARS_TO_SAVE
   \<and> write_env_vars {} (\<lambda>path. True) (\<lambda>text. True)
        \<lparr>os_environ = [(''YB_DEBUG'', ''1'')], heap = []\<rparr> Map.empty ''env.sh''
       = (None, [''env.sh'' \<mapsto> ''export YB_DEBUG=1'' @ [CHR 0x0A]])"
  by (simp add: ENV_VARS_TO_SAVE_def write_env_vars_def startswith_def export_line_def
      shlex_quote_def is_safe_char_def)

text \<open>
  C8, amended. When the file can be opened and the script encoded, \<open>write_env_vars\<close>
  returns and has replaced the content of the file at the given path by one line
  \<open>export NAME=quoted_value\<close> for each variable of the environment whose name is in
  \<open>ENV_VARS_TO_SAVE\<close>, is in \<open>DEVTOOLSET_ENV_VARS\<close> or starts with \<open>YB_\<close>, in the
  order of the names, each such variable once, and no line for any other variable. When
  the file cannot be opened it raises \<open>OSError\<close> and leaves the files as they are; when
  the script cannot be encoded it raises \<open>UnicodeEncodeError\<close> and leaves the file
  empty.
\<close>

theorem write_env_vars_exports:
  assumes "is_dict (os_environ s)"
  shows "\<exists>kvs. sorted (map fst kvs) \<and> distinct (map fst kvs)
               \<and> set kvs = {(k, v). (k, v) \<in> set (os_environ s) \<and> is_saved_name D k}
               \<and> write_env_vars D openable encodable s files file_path
                   = (if \<not> openable file_path then (Some OSError, files)
                      else if \<not> encodable (concat (map (\<lambda>(k, v). export_line k v) kvs))
                      then (Some UnicodeEncodeError, files(file_path \<mapsto> []))
                      else (None, files(file_path \<mapsto> concat (map (\<lambda>(k, v). export_line k v) kvs))))"
proof -
  let ?kvs = "filter (\<lambda>(k, v). is_saved_name D k) (sort (os_environ s))"
  have "sorted (map fst ?kvs)"
    using sorted_items_keys by (rule sorted_filter)
  moreover have "distinct (map fst ?kvs)"
    using sorted_items_distinct[OF assms] by (rule distinct_map_filter)
  moreover have "set ?kvs = {(k, v). (k, v) \<in> set (os_environ s) \<and> is_saved_name D k}"
    by auto
  moreover have "write_env_vars D openable encodable s files file_path
                   = (if \<not> openable file_path then (Some OSError, files)
                      else if \<not> encodable (concat (map (\<lambda>(k, v). export_line k v) ?kvs))
                      then (Some UnicodeEncodeError, files(file_path \<mapsto> []))
                      else (None, files(file_path \<mapsto> concat (map (\<lambda>(k, v). export_line k v) ?kvs))))"
    by (simp add: write_env_vars_def write_env_vars_loop_eq)
  ultimately show ?thesis by blast
qed

theorem write_env_vars_exports_witness:
  "is_dict (os_environ \<lparr>os_environ = [(''PATH'', ''/bin''), (''YB_X'', ''a b''), (''HOME'', ''/root''),
                                         (''MANPATH'', []), (''CC'', ''gcc'')], heap = []\<rparr>)
   \<and> (\<exists>kvs. sorted (map fst kvs) \<and> distinct (map fst kvs)
            \<and> set kvs = {(k, v). (k, v) \<in> set [(''PATH'', ''/bin''), (''YB_X'', ''a b''),
                                                  (''HOME'', ''/root''), (''MANPATH'', []),
                                                  (''CC'', ''gcc'')]
                                   \<and> is_saved_name {''MANPATH''} k}
            \<and> write_env_vars {''MANPATH''} (\<lambda>path. path \<noteq> [])
                 (list_all (\<lambda>c. (of_char c :: nat) < 128))
                 \<lparr>os_environ = [(''PATH'', ''/bin''), (''YB_X'', ''a b''), (''HOME'', ''/root''),
                                 (''MANPATH'', []), (''CC'', ''gcc'')], heap = []\<rparr>
                 Map.empty ''env.sh''
               = (if \<not> ''env.sh'' \<noteq> [] then (Some OSError, Map.empty)
                  else if \<not> list_all (\<lambda>c. (of_char c :: nat) < 128)
                                (concat (map (\<lambda>(k, v). export_line k v) kvs))
                  then (Some UnicodeEncodeError, [''env.sh'' \<mapsto> []])
                  else (None, [''env.sh'' \<mapsto> concat (map (\<lambda>(k, v). export_line k v) kvs)])))
   \<and> write_env_vars {''MANPATH''} (\<lambda>path. path \<noteq> []) (list_all (\<lambda>c. (of_char c :: nat) < 128))
         \<lparr>os_environ = [(''PATH'', ''/bin''), (''YB_X'', ''a b''), (''HOME'', ''/root''),
                         (''MANPATH'', []), (''CC'', ''gcc'')], heap = []\<rparr>
         Map.empty ''env.sh''
       = (None, [''env.sh'' \<mapsto>
               ''export CC=gcc'' @ [CHR 0x0A]
               @ ''export MANPATH='' @ [CHR 0x27, CHR 0x27, CHR 0x0A]
               @ ''export PATH=/bin'' @ [CHR 0x0A]
               @ ''export YB_X='' @ [CHR 0x27] @ ''a b'' @ [CHR 0x27, CHR 0x0A]])
   \<and> write_env_vars {} (\<lambda>path. path \<noteq> []) (list_all (\<lambda>c. (of_char c :: nat) < 128))
         \<lparr>os_environ = [(''CC'', ''gcc'')], heap = []\<rparr> [''old'' \<mapsto> ''text''] []
       = (Some OSError, [''old'' \<mapsto> ''text''])
   \<and> write_env_vars {} (\<lambda>path. path \<noteq> []) (list_all (\<lambda>c. (of_char c :: nat) < 128))
         \<lparr>os_environ = [(''CC'', [CHR 0xE9])], heap = []\<rparr> [''env.sh'' \<mapsto> ''text''] ''env.sh''
       = (Some UnicodeEncodeError, [''env.sh'' \<mapsto> []])"
proof -
  let ?env = "[(''PATH'', ''/bin''), (''YB_X'', ''a b''), (''HOME'', ''/root''),
               (''MANPATH'', []), (''CC'', ''gcc'')]"
  let ?s = "\<lparr>os_environ = ?env, heap = []\<rparr>"
  let ?ascii = "list_all (\<lambda>c. (of_char c :: nat) < 128)"
  have h: "is_dict (os_environ ?s)" by (simp add: is_dict_def)
  have c1: "write_env_vars {''MANPATH''} (\<lambda>path. path \<noteq> []) ?ascii ?s Map.empty ''env.sh''
       = (None, [''env.sh'' \<mapsto>
               ''export CC=gcc'' @ [CHR 0x0A]
               @ ''export MANPATH='' @ [CHR 0x27, CHR 0x27, CHR 0x0A]
               @ ''export PATH=/bin'' @ [CHR 0x0A]
               @ ''export YB_X='' @ [CHR 0x27] @ ''a b'' @ [CHR 0x27, CHR 0x0A]])"
    by (simp add: ENV_VARS_TO_SAVE_def write_env_vars_def startswith_def export_line_def
        shlex_quote_def is_safe_char_def less_eq_prod_def)
  have c2: "write_env_vars {} (\<lambda>path. path \<noteq> []) ?ascii
         \<lparr>os_environ = [(''CC'', ''gcc'')], heap = []\<rparr> [''old'' \<mapsto> ''text''] []
       = (Some OSError, [''old'' \<mapsto> ''text''])"
    by (simp add: write_env_vars_def)
  have c3: "write_env_vars {} (\<lambda>path. path \<noteq> []) ?ascii
         \<lparr>os_environ = [(''CC'', [CHR 0xE9])], heap = []\<rparr> [''env.sh'' \<mapsto> ''text''] ''env.sh''
       = (Some UnicodeEncodeError, [''env.sh'' \<mapsto> []])"
    by (simp add: ENV_VARS_TO_SAVE_def write_env_vars_def startswith_def export_line_def
        shlex_quote_def is_safe_char_def)
  have e: "os_environ ?s = ?env" by simp
  show ?thesis
    using h c1 c2 c3
      write_env_vars_exports[OF h, of "{''MANPATH''}" "\<lambda>path. path \<noteq> []" ?ascii Map.empty "''env.sh''"]
    unfolding e by blast
qed

end
